theory Spec2Isabelle
  imports Complex_Main
begin

section \<open>Equipment slots (ShipType.h, class EquipSet)\<close>

text \<open>
  \<^verbatim>\<open>Equip::Type\<close> is an enumeration declared in EquipType.h; the only enumerator the
  code of \<^verbatim>\<open>EquipSet\<close> names is \<^verbatim>\<open>Equip::NONE\<close>, the others are kept by their ordinal.
  \<^verbatim>\<open>Equip::Slot\<close> indexes the array \<^verbatim>\<open>equip[Equip::SLOT_MAX]\<close> of vectors.
\<close>

datatype Equip_Type = NONE | Item nat

type_synonym Equip_Slot = nat

text \<open>
  The private array of slot vectors, and the number of times the signal
  \<^verbatim>\<open>onChange\<close> has been emitted.
\<close>

record EquipSet =
  equip :: "Equip_Slot \<Rightarrow> Equip_Type list"
  onChange_emitted :: nat

text \<open>
  The loop of \<^verbatim>\<open>EquipSet::Add\<close>:
  \<^verbatim>\<open>for (unsigned int i=0; i<equip[s].size(); i++) {
    if (numDone == num) break;
    if (equip[s][i] == Equip::NONE) { equip[s][i] = e; numDone++; } }\<close>
  The counter cannot overflow: it is at most the size of the vector, which was built from
  an \<^verbatim>\<open>int\<close> capacity.
\<close>

function Add_loop ::
  "Equip_Type \<Rightarrow> int \<Rightarrow> Equip_Type list \<Rightarrow> nat \<Rightarrow> int \<Rightarrow> Equip_Type list \<times> int" where
  "Add_loop e num v i numDone =
     (if i < length v then
        (if numDone = num then (v, numDone)
         else if v ! i = NONE then Add_loop e num (v[i := e]) (Suc i) (numDone + 1)
         else Add_loop e num v (Suc i) numDone)
      else (v, numDone))"
  by pat_completeness auto
termination
  by (relation "measure (\<lambda>(e, num, v, i, numDone). length v - i)") auto

declare Add_loop.simps [simp del]

text \<open>
  \<^verbatim>\<open>bool Add(Equip::Type e, int num)\<close>. The table \<^verbatim>\<open>EquipType::types\<close> (EquipType.h) is
  declared outside the two source files; its \<^verbatim>\<open>slot\<close> column is the parameter \<open>slot_of\<close>.
\<close>

definition Add ::
  "(Equip_Type \<Rightarrow> Equip_Slot) \<Rightarrow> EquipSet \<Rightarrow> Equip_Type \<Rightarrow> int \<Rightarrow> bool \<times> EquipSet" where
  "Add slot_of es e num =
     (let s = slot_of e;
          (v, numDone) = Add_loop e num (equip es s) 0 0
      in (numDone = num,
          es\<lparr>equip := (equip es)(s := v),
             onChange_emitted :=
               (if numDone \<noteq> 0 then Suc (onChange_emitted es) else onChange_emitted es)\<rparr>))"

text \<open>\<^verbatim>\<open>int FreeSpace(Equip::Slot s) const\<close>: the loop counting the empty slots.\<close>

function FreeSpace_loop :: "Equip_Type list \<Rightarrow> nat \<Rightarrow> int \<Rightarrow> int" where
  "FreeSpace_loop v i free =
     (if i < length v then FreeSpace_loop v (Suc i) (if v ! i = NONE then free + 1 else free)
      else free)"
  by pat_completeness auto
termination
  by (relation "measure (\<lambda>(v, i, free). length v - i)") auto

declare FreeSpace_loop.simps [simp del]

definition FreeSpace :: "EquipSet \<Rightarrow> Equip_Slot \<Rightarrow> int" where
  "FreeSpace es s = FreeSpace_loop (equip es s) 0 0"

text \<open>Vocabulary of the statements: the number of empty slots of a vector.\<close>

definition empties :: "Equip_Type list \<Rightarrow> nat" where
  "empties v = length (filter (\<lambda>x. x = NONE) v)"

text \<open>
  Vocabulary of the loop invariant: slot \<open>k\<close>, at or after \<open>i\<close>, is an empty slot that
  the loop reaches before the count \<open>num\<close> is used up.
\<close>

definition filled :: "Equip_Type list \<Rightarrow> nat \<Rightarrow> int \<Rightarrow> int \<Rightarrow> nat \<Rightarrow> bool" where
  "filled v i n num k \<longleftrightarrow>
     i \<le> k \<and> v ! k = NONE \<and> n + int (empties (take (k - i) (drop i v))) < num"


section \<open>The ship-type table (ShipType.h, struct ShipType)\<close>

record ShipType =
  name :: string
  lmrModelName :: string
  linThrust :: "real list"
  angThrust :: real
  gunMount :: "((real \<times> real \<times> real) \<times> (real \<times> real \<times> real)) list"
  equipSlotCapacity :: "int list"
  capacity :: int
  hullMass :: int
  baseprice :: int
  hyperdrive :: Equip_Type

text \<open>
  A \<^verbatim>\<open>const char *\<close> made from a \<^verbatim>\<open>std::string\<close> by \<^verbatim>\<open>c_str()\<close> ends at the first NUL
  byte; building a \<^verbatim>\<open>std::string\<close> key from it keeps the bytes before that.
\<close>

definition c_str :: "string \<Rightarrow> string" where
  "c_str s = takeWhile (\<lambda>c. c \<noteq> CHR 0x00) s"

text \<open>
  \<^verbatim>\<open>static const ShipType *Get(const char *name)\<close>: \<^verbatim>\<open>types.find(name)\<close>, the null pointer
  when the key is absent. The argument is already a C string.
\<close>

definition ShipType_Get :: "(string \<rightharpoonup> ShipType) \<Rightarrow> string \<Rightarrow> ShipType option" where
  "ShipType_Get types nm = types nm"


section \<open>Simulation objects, handles and the world (PiLuaAPI.cpp, class ObjectWrapper)\<close>

type_synonym obj_ptr = nat
type_synonym wrapper_ptr = nat

text \<open>
  \<^verbatim>\<open>Object::Type\<close> (Object.h): the enumerators the wrapper asks for, the others by ordinal.
\<close>

datatype Object_Type = BODY | SHIP | SPACESTATION | OTHER_TYPE nat

text \<open>
  How a call can end without a result: a Lua error raised by \<^verbatim>\<open>luaL_checktype\<close>, the fatal
  \<^verbatim>\<open>Error(...)\<close>, a failed \<^verbatim>\<open>assert\<close>, and the undefined reads of C++ (a null or a dangling
  pointer dereferenced, \<^verbatim>\<open>atoi\<close> out of the range of \<^verbatim>\<open>int\<close>).
\<close>

datatype error =
    LuaError string
  | FatalError string
  | AssertionFailed
  | NullDereference
  | UseAfterFree
  | Undefined

text \<open>
  A simulation object, as far as the wrapper reads and writes it: the types \<^verbatim>\<open>IsType\<close>
  answers for, the label of a \<^verbatim>\<open>Body\<close>, the money of a \<^verbatim>\<open>Ship\<close> (\<^verbatim>\<open>Sint64\<close>), the station
  a ship is docked with, the system body of a \<^verbatim>\<open>Body\<close>, the bulletin board of a station,
  and the slots connected to the signal \<^verbatim>\<open>onDelete\<close>, in the order of connection (each
  slot is the \<^verbatim>\<open>OnDelete\<close> method of one wrapper).
\<close>

record Object =
  otypes :: "Object_Type list"
  label :: string
  money :: int
  dockedWith :: "obj_ptr option"
  sbody :: "nat option"
  adverts :: "(string \<times> int \<times> string) list"
  onDelete :: "wrapper_ptr list"

text \<open>
  \<^verbatim>\<open>m_obj\<close> is the wrapped pointer (\<open>None\<close> is the null pointer), \<^verbatim>\<open>m_delCon\<close> the
  \<^verbatim>\<open>sigc::connection\<close>: the object whose signal holds this wrapper's slot, or \<open>None\<close> once
  disconnected.
\<close>

record ObjectWrapper =
  m_obj :: "obj_ptr option"
  m_delCon :: "obj_ptr option"

text \<open>
  The process state the file reads and writes. Objects and wrappers live in stores keyed
  by address; \<open>next_obj\<close> and \<open>next_wrapper\<close> are the addresses the next \<^verbatim>\<open>new\<close> returns.
  \<open>registry\<close> is the body index of \<^verbatim>\<open>Serializer\<close>, \<open>bodies\<close> the list of \<^verbatim>\<open>Space\<close>,
  \<open>player\<close> is \<^verbatim>\<open>Pi::player\<close>, \<open>shipTypes\<close> is \<^verbatim>\<open>ShipType::types\<close>, and \<open>rng_draws\<close>
  counts the values drawn from \<^verbatim>\<open>Pi::rng\<close>.
\<close>

record World =
  objects :: "obj_ptr \<rightharpoonup> Object"
  next_obj :: obj_ptr
  wrappers :: "wrapper_ptr \<rightharpoonup> ObjectWrapper"
  next_wrapper :: wrapper_ptr
  registry :: "obj_ptr list"
  bodies :: "obj_ptr list"
  player :: "obj_ptr option"
  shipTypes :: "string \<rightharpoonup> ShipType"
  gameTime :: real
  systemBeingBuilt :: bool
  rng_draws :: nat

definition IsType :: "Object \<Rightarrow> Object_Type \<Rightarrow> bool" where
  "IsType ob t \<longleftrightarrow> t \<in> set (otypes ob)"

text \<open>
  \<^verbatim>\<open>o->onDelete.connect(slot)\<close>: dereferences \<open>p\<close> and appends the slot of wrapper \<open>h\<close>.
\<close>

definition connect :: "World \<Rightarrow> obj_ptr option \<Rightarrow> wrapper_ptr \<Rightarrow> error + World" where
  "connect w p h =
     (case p of
        None \<Rightarrow> Inl NullDereference
      | Some b \<Rightarrow>
          (case objects w b of
             None \<Rightarrow> Inl UseAfterFree
           | Some ob \<Rightarrow>
               Inr (w\<lparr>objects := (objects w)(b \<mapsto> ob\<lparr>onDelete := onDelete ob @ [h]\<rparr>)\<rparr>)))"

text \<open>
  \<^verbatim>\<open>m_delCon.disconnect()\<close>: removes the slot from its signal if it is still there;
  does nothing on an empty connection or when the signal is gone.
\<close>

definition disconnect :: "World \<Rightarrow> wrapper_ptr \<Rightarrow> World" where
  "disconnect w h =
     (case wrappers w h of
        None \<Rightarrow> w
      | Some ow \<Rightarrow>
          (case m_delCon ow of
             None \<Rightarrow> w
           | Some b \<Rightarrow>
               (let w1 = w\<lparr>wrappers := (wrappers w)(h \<mapsto> ow\<lparr>m_delCon := None\<rparr>)\<rparr>
                in case objects w1 b of
                     None \<Rightarrow> w1
                   | Some ob \<Rightarrow>
                       w1\<lparr>objects :=
                            (objects w1)(b \<mapsto> ob\<lparr>onDelete := removeAll h (onDelete ob)\<rparr>)\<rparr>)))"

text \<open>
  \<^verbatim>\<open>ObjectWrapper::ObjectWrapper(Object *o): m_obj(o)
  { m_delCon = o->onDelete.connect(sigc::mem_fun(this, &ObjectWrapper::OnDelete)); }\<close>
\<close>

definition new_ObjectWrapper ::
  "World \<Rightarrow> obj_ptr option \<Rightarrow> error + (wrapper_ptr \<times> World)" where
  "new_ObjectWrapper w p =
     (let h = next_wrapper w in
      case connect w p h of
        Inl e \<Rightarrow> Inl e
      | Inr w1 \<Rightarrow>
          Inr (h, w1\<lparr>wrappers := (wrappers w1)(h \<mapsto> \<lparr>m_obj = p, m_delCon = p\<rparr>),
                     next_wrapper := Suc h\<rparr>))"

text \<open>\<^verbatim>\<open>void ObjectWrapper::OnDelete() { m_obj = 0; m_delCon.disconnect(); }\<close>\<close>

definition OnDelete :: "World \<Rightarrow> wrapper_ptr \<Rightarrow> error + World" where
  "OnDelete w h =
     (case wrappers w h of
        None \<Rightarrow> Inl UseAfterFree
      | Some ow \<Rightarrow>
          Inr (disconnect (w\<lparr>wrappers := (wrappers w)(h \<mapsto> ow\<lparr>m_obj := None\<rparr>)\<rparr>) h))"

text \<open>\<^verbatim>\<open>ObjectWrapper::~ObjectWrapper() { m_delCon.disconnect(); }\<close>, then the memory is freed.\<close>

definition delete_ObjectWrapper :: "World \<Rightarrow> wrapper_ptr \<Rightarrow> error + World" where
  "delete_ObjectWrapper w h =
     (case wrappers w h of
        None \<Rightarrow> Inl UseAfterFree
      | Some ow \<Rightarrow>
          (let w1 = disconnect w h in Inr (w1\<lparr>wrappers := (wrappers w1)(h := None)\<rparr>)))"

text \<open>
  \<^verbatim>\<open>bool ObjectWrapper::Is(Object::Type t) const { return m_obj && m_obj->IsType(t); }\<close>
  A null \<^verbatim>\<open>m_obj\<close> is answered without a read; a non-null one is dereferenced.
\<close>

definition Is :: "World \<Rightarrow> wrapper_ptr \<Rightarrow> Object_Type \<Rightarrow> error + bool" where
  "Is w h t =
     (case wrappers w h of
        None \<Rightarrow> Inl UseAfterFree
      | Some ow \<Rightarrow>
          (case m_obj ow of
             None \<Rightarrow> Inr False
           | Some b \<Rightarrow>
               (case objects w b of
                  None \<Rightarrow> Inl UseAfterFree
                | Some ob \<Rightarrow> Inr (IsType ob t))))"

text \<open>\<^verbatim>\<open>static_cast<...>(m_obj)->\<close>: the object behind \<^verbatim>\<open>m_obj\<close>, with its address.\<close>

definition deref :: "World \<Rightarrow> wrapper_ptr \<Rightarrow> error + (obj_ptr \<times> Object)" where
  "deref w h =
     (case wrappers w h of
        None \<Rightarrow> Inl UseAfterFree
      | Some ow \<Rightarrow>
          (case m_obj ow of
             None \<Rightarrow> Inl NullDereference
           | Some b \<Rightarrow>
               (case objects w b of
                  None \<Rightarrow> Inl UseAfterFree
                | Some ob \<Rightarrow> Inr (b, ob))))"

definition IsBody :: "World \<Rightarrow> wrapper_ptr \<Rightarrow> error + bool" where
  "IsBody w h = Is w h BODY"

text \<open>
  \<^verbatim>\<open>double GetMoney() const\<close>: \<^verbatim>\<open>0.01 * s->GetMoney()\<close> for a ship, \<^verbatim>\<open>0\<close> otherwise. The
  product is taken in the reals; the rounding of \<^verbatim>\<open>double\<close> is not modelled.
\<close>

definition GetMoney :: "World \<Rightarrow> wrapper_ptr \<Rightarrow> error + real" where
  "GetMoney w h =
     (case Is w h SHIP of
        Inl e \<Rightarrow> Inl e
      | Inr isShip \<Rightarrow>
          if isShip then
            (case deref w h of
               Inl e \<Rightarrow> Inl e
             | Inr (b, s) \<Rightarrow> Inr (0.01 * real_of_int (money s)))
          else Inr 0)"

text \<open>
  \<^verbatim>\<open>(Sint64)(m*100.0)\<close>: truncation towards zero; the rounding of the product and values
  outside \<^verbatim>\<open>Sint64\<close> are not modelled.
\<close>

definition Sint64_of_double :: "real \<Rightarrow> int" where
  "Sint64_of_double x = (if 0 \<le> x then \<lfloor>x\<rfloor> else \<lceil>x\<rceil>)"

definition SetMoney :: "World \<Rightarrow> wrapper_ptr \<Rightarrow> real \<Rightarrow> error + World" where
  "SetMoney w h m =
     (case Is w h SHIP of
        Inl e \<Rightarrow> Inl e
      | Inr isShip \<Rightarrow>
          if isShip then
            (case deref w h of
               Inl e \<Rightarrow> Inl e
             | Inr (b, s) \<Rightarrow>
                 Inr (w\<lparr>objects := (objects w)(b \<mapsto> s\<lparr>money := Sint64_of_double (m * 100)\<rparr>)\<rparr>))
          else Inr w)"

text \<open>
  \<^verbatim>\<open>const char *GetLabel() const\<close>: the label of a body as a C string, \<^verbatim>\<open>""\<close> otherwise.
\<close>

definition GetLabel :: "World \<Rightarrow> wrapper_ptr \<Rightarrow> error + string" where
  "GetLabel w h =
     (case Is w h BODY of
        Inl e \<Rightarrow> Inl e
      | Inr isBody \<Rightarrow>
          if isBody then
            (case deref w h of
               Inl e \<Rightarrow> Inl e
             | Inr (b, body) \<Rightarrow> Inr (c_str (label body)))
          else Inr [])"

text \<open>
  The bulletin board of a station is kept as the list of adverts (module, reference,
  description); \<^verbatim>\<open>BBAddAdvert\<close> appends, \<^verbatim>\<open>BBRemoveAdvert\<close> drops the adverts of that
  module and reference.
\<close>

definition SpaceStationAddAdvert ::
  "World \<Rightarrow> wrapper_ptr \<Rightarrow> string \<Rightarrow> int \<Rightarrow> string \<Rightarrow> error + World" where
  "SpaceStationAddAdvert w h luaMod luaRef description =
     (case Is w h SPACESTATION of
        Inl e \<Rightarrow> Inl e
      | Inr isStation \<Rightarrow>
          if isStation then
            (case deref w h of
               Inl e \<Rightarrow> Inl e
             | Inr (b, st) \<Rightarrow>
                 Inr (w\<lparr>objects := (objects w)
                         (b \<mapsto> st\<lparr>adverts := adverts st @ [(luaMod, luaRef, description)]\<rparr>)\<rparr>))
          else Inr w)"

definition SpaceStationRemoveAdvert ::
  "World \<Rightarrow> wrapper_ptr \<Rightarrow> string \<Rightarrow> int \<Rightarrow> error + World" where
  "SpaceStationRemoveAdvert w h luaMod luaRef =
     (case Is w h SPACESTATION of
        Inl e \<Rightarrow> Inl e
      | Inr isStation \<Rightarrow>
          if isStation then
            (case deref w h of
               Inl e \<Rightarrow> Inl e
             | Inr (b, st) \<Rightarrow>
                 Inr (w\<lparr>objects := (objects w)
                         (b \<mapsto> st\<lparr>adverts :=
                              filter (\<lambda>(m, r, d). \<not> (m = luaMod \<and> r = luaRef)) (adverts st)\<rparr>)\<rparr>))
          else Inr w)"

text \<open>
  \<^verbatim>\<open>SBodyPath *GetSBody()\<close>: the path of the body's system body, or the null pointer.
  \<^verbatim>\<open>StarSystem::GetPathOf\<close> is the parameter \<open>GetPathOf\<close>.
\<close>

definition GetSBody :: "(nat \<Rightarrow> 'p) \<Rightarrow> World \<Rightarrow> wrapper_ptr \<Rightarrow> error + 'p option" where
  "GetSBody GetPathOf w h =
     (case Is w h BODY of
        Inl e \<Rightarrow> Inl e
      | Inr isBody \<Rightarrow>
          if isBody then
            (case deref w h of
               Inl e \<Rightarrow> Inl e
             | Inr (b, body) \<Rightarrow>
                 (case sbody body of
                    None \<Rightarrow> Inr None
                  | Some sb \<Rightarrow> Inr (Some (GetPathOf sb))))
          else Inr None)"

text \<open>
  \<^verbatim>\<open>ObjectWrapper *GetDockedWith()\<close>: a new wrapper on the station a ship is docked
  with, or the null pointer.
\<close>

definition GetDockedWith :: "World \<Rightarrow> wrapper_ptr \<Rightarrow> error + (wrapper_ptr option \<times> World)" where
  "GetDockedWith w h =
     (case Is w h SHIP of
        Inl e \<Rightarrow> Inl e
      | Inr isShip \<Rightarrow>
          if isShip then
            (case deref w h of
               Inl e \<Rightarrow> Inl e
             | Inr (b, s) \<Rightarrow>
                 (case dockedWith s of
                    None \<Rightarrow> Inr (None, w)
                  | Some st \<Rightarrow>
                      (case new_ObjectWrapper w (Some st) of
                         Inl e \<Rightarrow> Inl e
                       | Inr (h', w') \<Rightarrow> Inr (Some h', w'))))
          else Inr (None, w))"


section \<open>Destruction of a simulation object\<close>

text \<open>
  Modelled from the spec: the destructor of \<^verbatim>\<open>Object\<close> (Object.h), which emits
  \<^verbatim>\<open>onDelete\<close>, is missing from the source files. The spec's \<open>NotifyDestruction\<close> is invoked once, immediately before
  the entity's resources are released, and calls every live subscriber's callback
  synchronously, in subscription order; an observer may unsubscribe itself during the
  callback. \<open>emit\<close> walks the slots that were connected when the emission started and
  calls those still connected; a slot whose wrapper has been freed is an undefined read.
\<close>

fun emit :: "World \<Rightarrow> obj_ptr \<Rightarrow> wrapper_ptr list \<Rightarrow> error + World" where
  "emit w b [] = Inr w"
| "emit w b (h # hs) =
     (case objects w b of
        None \<Rightarrow> Inl UseAfterFree
      | Some ob \<Rightarrow>
          if h \<in> set (onDelete ob) then
            (case OnDelete w h of Inl e \<Rightarrow> Inl e | Inr w1 \<Rightarrow> emit w1 b hs)
          else emit w b hs)"

text \<open>
  Modelled from the spec: the destruction of an \<^verbatim>\<open>Object\<close> (Object.h, missing from the
  source files). The notification runs first, over the slots connected at that moment;
  then the object's memory is released.
\<close>

definition delete_Object :: "World \<Rightarrow> obj_ptr \<Rightarrow> error + World" where
  "delete_Object w b =
     (case objects w b of
        None \<Rightarrow> Inl UseAfterFree
      | Some ob \<Rightarrow>
          (case emit w b (onDelete ob) of
             Inl e \<Rightarrow> Inl e
           | Inr w1 \<Rightarrow> Inr (w1\<lparr>objects := (objects w1)(b := None)\<rparr>)))"

text \<open>\<^verbatim>\<open>new\<close> of a simulation object: a fresh address, no slot connected yet.\<close>

definition new_Object :: "World \<Rightarrow> Object \<Rightarrow> obj_ptr \<times> World" where
  "new_Object w ob =
     (let b = next_obj w in
      (b, w\<lparr>objects := (objects w)(b \<mapsto> ob\<lparr>onDelete := []\<rparr>), next_obj := Suc b\<rparr>))"


section \<open>The body index of the serializer\<close>

text \<open>
  Modelled from the spec: \<^verbatim>\<open>Serializer::LookupBody(Body*)\<close> (Serializer.cpp) is missing
  from the source files. The spec's \<open>LookupId\<close> returns the previously assigned id if the
  entity was already encoded during the current pass; otherwise it assigns and records
  the next unused id. The first id issued is 0. The id of an entity is its position in
  \<open>registry\<close>.
\<close>

definition LookupBody_id :: "World \<Rightarrow> obj_ptr \<Rightarrow> int \<times> World" where
  "LookupBody_id w b =
     (int (length (takeWhile (\<lambda>x. x \<noteq> b) (registry w))),
      if b \<in> set (registry w) then w else w\<lparr>registry := registry w @ [b]\<rparr>)"

text \<open>
  Modelled from the spec: \<^verbatim>\<open>Serializer::LookupBody(size_t)\<close> (Serializer.cpp) is missing
  from the source files. The spec's \<open>LookupEntity\<close> resolves an id produced in the matching
  session and fails on any other id; the failure of a function returning \<^verbatim>\<open>Body *\<close> is
  the null pointer.
\<close>

definition LookupBody_ptr :: "World \<Rightarrow> nat \<Rightarrow> obj_ptr option" where
  "LookupBody_ptr w idx = (if idx < length (registry w) then Some (registry w ! idx) else None)"


section \<open>Text of the C library: \<^verbatim>\<open>%d\<close> and \<^verbatim>\<open>atoi\<close>\<close>

definition newline :: char where
  "newline = CHR 0x0A"

definition digit_char :: "nat \<Rightarrow> char" where
  "digit_char d = char_of (48 + d)"

definition isdigit :: "char \<Rightarrow> bool" where
  "isdigit c \<longleftrightarrow> 48 \<le> (of_char c :: nat) \<and> (of_char c :: nat) \<le> 57"

definition isspace :: "char \<Rightarrow> bool" where
  "isspace c \<longleftrightarrow> c \<in> set [CHR 0x20, CHR 0x09, CHR 0x0A, CHR 0x0B, CHR 0x0C, CHR 0x0D]"

text \<open>The decimal digits of a natural number, most significant first.\<close>

function decimal :: "nat \<Rightarrow> string" where
  "decimal n = (if n < 10 then [digit_char n] else decimal (n div 10) @ [digit_char (n mod 10)])"
  by pat_completeness auto
termination
  by (relation "measure (\<lambda>n. n)") auto

declare decimal.simps [simp del]

text \<open>The conversion \<^verbatim>\<open>%d\<close> of \<^verbatim>\<open>snprintf\<close>.\<close>

definition printf_d :: "int \<Rightarrow> string" where
  "printf_d i = (if i < 0 then CHR ''-'' # decimal (nat (- i)) else decimal (nat i))"

text \<open>The digits \<^verbatim>\<open>atoi\<close> reads, up to the first character that is not one.\<close>

fun atoi_digits :: "int \<Rightarrow> string \<Rightarrow> int" where
  "atoi_digits acc [] = acc"
| "atoi_digits acc (c # cs) =
     (if isdigit c then atoi_digits (acc * 10 + (int (of_char c) - 48)) cs else acc)"

text \<open>
  \<^verbatim>\<open>atoi\<close>: leading white space, an optional sign, digits. A value that does not fit
  \<^verbatim>\<open>int\<close> (32 bits) is undefined behaviour in C (what a given library then returns is not
  modelled).
\<close>

definition atoi :: "string \<Rightarrow> error + int" where
  "atoi s =
     (let s1 = dropWhile isspace s;
          (neg, s2) = (case s1 of
                         [] \<Rightarrow> (False, s1)
                       | c # r \<Rightarrow> if c = CHR ''-'' then (True, r)
                                  else if c = CHR ''+'' then (False, r)
                                  else (False, s1));
          v = atoi_digits 0 s2;
          r = (if neg then - v else v)
      in if - (2 ^ 31) \<le> r \<and> r < 2 ^ 31 then Inr r else Inl Undefined)"

text \<open>\<^verbatim>\<open>size_t idx = atoi(...)\<close>: the conversion of \<^verbatim>\<open>int\<close> to a 64-bit \<^verbatim>\<open>size_t\<close>.\<close>

definition to_size_t :: "int \<Rightarrow> nat" where
  "to_size_t v = nat (v mod 2 ^ 64)"


section \<open>The persistence entry points (PiLuaAPI.cpp)\<close>

text \<open>\<^verbatim>\<open>SysLoc(sectorX, sectorY, systemIdx)\<close>, as \<^verbatim>\<open>GetCurrentSystem\<close> builds it.\<close>

record SysLoc =
  sectorX :: int
  sectorY :: int
  systemIdx :: int

text \<open>
  The values a script can pass and receive. Userdata carries the class name
  \<^verbatim>\<open>mylua_checkudata\<close> tests; \<open>'p\<close> is the type of \<^verbatim>\<open>SBodyPath\<close>, whose fields are declared
  outside the two source files. \<open>UD_Other\<close> is userdata of any other registered class
  (\<^verbatim>\<open>LuaChatForm\<close>, \<^verbatim>\<open>SoundEvent\<close>).
\<close>

datatype 'p lua_value =
    LNil
  | LBoolean bool
  | LNumber real
  | LString string
  | UD_ObjectWrapper wrapper_ptr
  | UD_SBodyPath 'p
  | UD_SysLoc SysLoc
  | UD_Other string

text \<open>
  What the entry points call outside the two source files: the field codecs of the two
  hierarchical kinds (\<^verbatim>\<open>Serialize\<close> into a \<^verbatim>\<open>Serializer::Writer\<close> and its \<^verbatim>\<open>GetData()\<close>;
  \<^verbatim>\<open>Unserialize\<close> from a \<^verbatim>\<open>Serializer::Reader\<close> over the data), the constructors of \<^verbatim>\<open>Ship\<close>
  and \<^verbatim>\<open>HyperspaceCloud\<close>, and the macro \<^verbatim>\<open>HYPERCLOUD_DURATION\<close>. \<^verbatim>\<open>OOLUA::push2lua\<close> and
  \<^verbatim>\<open>OOLUA::pull2cpp\<close> are taken to carry a string unchanged.
\<close>

record 'p Collaborators =
  SBodyPath_Serialize :: "'p \<Rightarrow> string"
  SBodyPath_Unserialize :: "string \<Rightarrow> 'p"
  SysLoc_Serialize :: "SysLoc \<Rightarrow> string"
  SysLoc_Unserialize :: "string \<Rightarrow> SysLoc"
  new_Ship :: "string \<Rightarrow> Object"
  new_HyperspaceCloud :: "obj_ptr \<Rightarrow> real \<Rightarrow> bool \<Rightarrow> Object"
  HYPERCLOUD_DURATION :: real

text \<open>
  \<^verbatim>\<open>static int UserDataSerialize(lua_State *L)\<close>. \<^verbatim>\<open>snprintf\<close> writes at most 127
  characters into \<^verbatim>\<open>buf[128]\<close>. The result is the list of values returned to the script
  and the state.
\<close>

definition UserDataSerialize ::
  "'p Collaborators \<Rightarrow> World \<Rightarrow> 'p lua_value \<Rightarrow> error + ('p lua_value list \<times> World)" where
  "UserDataSerialize ex w v =
     (case v of
        UD_ObjectWrapper h \<Rightarrow>
          (case IsBody w h of
             Inl e \<Rightarrow> Inl e
           | Inr isBody \<Rightarrow>
               if \<not> isBody then Inl AssertionFailed
               else
                 (case deref w h of
                    Inl e \<Rightarrow> Inl e
                  | Inr (b, body) \<Rightarrow>
                      (let (n, w') = LookupBody_id w b
                       in Inr ([LString (take 127 (''ObjectWrapper'' @ [newline]
                                                   @ printf_d n @ [newline]))], w'))))
      | UD_SBodyPath path \<Rightarrow>
          Inr ([LString (''SBodyPath'' @ [newline] @ SBodyPath_Serialize ex path)], w)
      | UD_SysLoc systemid \<Rightarrow>
          Inr ([LString (''SysLoc'' @ [newline] @ SysLoc_Serialize ex systemid)], w)
      | UD_Other cls \<Rightarrow> Inl (FatalError ''Tried to serialize unknown userdata type.'')
      | _ \<Rightarrow> Inl (LuaError ''userdata expected''))"

text \<open>
  \<^verbatim>\<open>static int UserDataUnserialize(lua_State *L)\<close>. \<^verbatim>\<open>str.substr(0, n)\<close> is \<open>take n\<close>,
  \<^verbatim>\<open>str.substr(n)\<close> is \<open>drop n\<close> (in range after the comparison). The last
  \<^verbatim>\<open>return 0\<close> returns no value.
\<close>

definition UserDataUnserialize ::
  "'p Collaborators \<Rightarrow> World \<Rightarrow> string \<Rightarrow> error + ('p lua_value list \<times> World)" where
  "UserDataUnserialize ex w str =
     (if take 14 str = ''ObjectWrapper'' @ [newline] then
        (case atoi (c_str (drop 14 str)) of
           Inl e \<Rightarrow> Inl e
         | Inr n \<Rightarrow>
             (let idx = to_size_t n;
                  b = LookupBody_ptr w idx
              in case new_ObjectWrapper w b of
                   Inl e \<Rightarrow> Inl e
                 | Inr (h, w') \<Rightarrow> Inr ([UD_ObjectWrapper h], w')))
      else if take 10 str = ''SBodyPath'' @ [newline] then
        Inr ([UD_SBodyPath (SBodyPath_Unserialize ex (drop 10 str))], w)
      else if take 7 str = ''SysLoc'' @ [newline] then
        Inr ([UD_SysLoc (SysLoc_Unserialize ex (drop 7 str))], w)
      else Inr ([], w))"

text \<open>Vocabulary of the statements: the tag of a payload is the text before its first newline.\<close>

definition tag_of :: "string \<Rightarrow> string" where
  "tag_of str = takeWhile (\<lambda>c. c \<noteq> newline) str"


section \<open>The field codecs of the hierarchical kinds\<close>

text \<open>
  Modelled from the spec: the fields of \<^verbatim>\<open>SBodyPath\<close> are declared outside the two source
  files. The spec describes the kind as a path through a static universe tree, an
  immutable value; it is kept as the list of the indices along the path.
\<close>

type_synonym SBodyPath = "int list"

text \<open>
  Modelled from the spec: \<^verbatim>\<open>Serializer::Writer\<close> and \<^verbatim>\<open>Serializer::Reader\<close> (Serializer.h) are
  missing from the source files. In the spec's payload grammar the body of a hierarchical
  kind is a nested sequence of the same grammar applied recursively to its structural
  fields, an integer is written as decimal text (as the id of an entity reference is),
  and the field separator is the newline. An integer field is written here as its
  decimal text ended by the separator; reading splits the body at the separators and
  reads each piece as a signed decimal number. The spec names no tag and no other
  terminator for an integer field.
\<close>

definition write_field :: "int \<Rightarrow> string" where
  "write_field i = printf_d i @ [newline]"

definition read_field :: "string \<Rightarrow> int" where
  "read_field s =
     (case s of
        [] \<Rightarrow> 0
      | c # r \<Rightarrow> if c = CHR ''-'' then - atoi_digits 0 r else atoi_digits 0 s)"

function split_fields :: "string \<Rightarrow> string list" where
  "split_fields s =
     (if s = [] then []
      else takeWhile (\<lambda>c. c \<noteq> newline) s
           # split_fields (drop 1 (dropWhile (\<lambda>c. c \<noteq> newline) s)))"
  by pat_completeness auto
termination
proof (relation "measure length")
  show "wf (measure length)" by simp
next
  fix s :: string
  assume "s \<noteq> []"
  then have "length (drop 1 (dropWhile (\<lambda>c. c \<noteq> newline) s)) < length s"
    using length_dropWhile_le[of "\<lambda>c. c \<noteq> newline" s] by (cases s) auto
  then show "(drop 1 (dropWhile (\<lambda>c. c \<noteq> newline) s), s) \<in> measure length" by simp
qed

declare split_fields.simps [simp del]

text \<open>
  Modelled from the spec: \<^verbatim>\<open>SBodyPath::Serialize\<close> and \<^verbatim>\<open>SBodyPath::Unserialize\<close> are missing
  from the source files. The body of a path is the sequence of its indices, each a field.
\<close>

definition spec_SBodyPath_Serialize :: "SBodyPath \<Rightarrow> string" where
  "spec_SBodyPath_Serialize p = concat (map write_field p)"

definition spec_SBodyPath_Unserialize :: "string \<Rightarrow> SBodyPath" where
  "spec_SBodyPath_Unserialize s = map read_field (split_fields s)"

text \<open>
  Modelled from the spec: \<^verbatim>\<open>SysLoc::Serialize\<close> and \<^verbatim>\<open>SysLoc::Unserialize\<close> are missing from
  the source files. The body of a system location is the sequence of its three fields
  (the coordinate triple of the spec). A body with fewer than three fields cannot come
  from the writer; it is read as the zero location.
\<close>

definition spec_SysLoc_Serialize :: "SysLoc \<Rightarrow> string" where
  "spec_SysLoc_Serialize l =
     write_field (sectorX l) @ write_field (sectorY l) @ write_field (systemIdx l)"

definition spec_SysLoc_Unserialize :: "string \<Rightarrow> SysLoc" where
  "spec_SysLoc_Unserialize s =
     (case map read_field (split_fields s) of
        x # y # z # rest \<Rightarrow> \<lparr>sectorX = x, sectorY = y, systemIdx = z\<rparr>
      | _ \<Rightarrow> \<lparr>sectorX = 0, sectorY = 0, systemIdx = 0\<rparr>)"

text \<open>The collaborators with the field codecs of the spec's grammar in place.\<close>

definition spec_codec :: "SBodyPath Collaborators \<Rightarrow> SBodyPath Collaborators" where
  "spec_codec ex = ex\<lparr>SBodyPath_Serialize := spec_SBodyPath_Serialize,
                       SBodyPath_Unserialize := spec_SBodyPath_Unserialize,
                       SysLoc_Serialize := spec_SysLoc_Serialize,
                       SysLoc_Unserialize := spec_SysLoc_Unserialize\<rparr>"


section \<open>The script functions of the table \<^verbatim>\<open>Pi\<close> (PiLuaAPI.cpp, namespace LuaPi)\<close>

text \<open>\<^verbatim>\<open>GetPlayer\<close>: a new wrapper on \<^verbatim>\<open>Pi::player\<close>.\<close>

definition GetPlayer :: "World \<Rightarrow> error + ('p lua_value list \<times> World)" where
  "GetPlayer w =
     (case new_ObjectWrapper w (player w) of
        Inl e \<Rightarrow> Inl e
      | Inr (h, w') \<Rightarrow> Inr ([UD_ObjectWrapper h], w'))"

text \<open>\<^verbatim>\<open>Space::AddBody\<close>: the body joins the list of the space.\<close>

definition AddBody :: "World \<Rightarrow> obj_ptr \<Rightarrow> World" where
  "AddBody w b = w\<lparr>bodies := bodies w @ [b]\<rparr>"

text \<open>
  The two ways \<^verbatim>\<open>SpawnShip\<close> puts a ship into the world: directly, or inside a
  hyperspace cloud. The frame, position and velocity copied from the player are not
  modelled; the three draws from \<^verbatim>\<open>Pi::rng\<close> for the position are counted by the caller.
\<close>

definition spawn_direct ::
  "'p Collaborators \<Rightarrow> World \<Rightarrow> string \<Rightarrow> error + ('p lua_value list \<times> World)" where
  "spawn_direct ex w type =
     (let (ship, w1) = new_Object w (new_Ship ex type);
          w2 = AddBody w1 ship
      in case new_ObjectWrapper w2 (Some ship) of
           Inl e \<Rightarrow> Inl e
         | Inr (h, w3) \<Rightarrow> Inr ([UD_ObjectWrapper h], w3))"

definition spawn_in_cloud ::
  "'p Collaborators \<Rightarrow> World \<Rightarrow> string \<Rightarrow> real \<Rightarrow> error + ('p lua_value list \<times> World)" where
  "spawn_in_cloud ex w type due =
     (let (ship, w1) = new_Object w (new_Ship ex type);
          (cloud, w2) = new_Object w1 (new_HyperspaceCloud ex ship due True);
          w3 = AddBody w2 cloud
      in case new_ObjectWrapper w3 (Some ship) of
           Inl e \<Rightarrow> Inl e
         | Inr (h, w4) \<Rightarrow> Inr ([UD_ObjectWrapper h], w4))"

text \<open>
  \<^verbatim>\<open>static int SpawnShip(lua_State *l)\<close>, with the pulled arguments \<open>due\<close> and \<open>type\<close>.
  \<^verbatim>\<open>type.c_str()\<close> is what \<^verbatim>\<open>ShipType::Get\<close> and the constructor of \<^verbatim>\<open>Ship\<close> receive. The
  times are compared in the reals. \<^verbatim>\<open>Pi::player->GetPosition()\<close> dereferences the player.
\<close>

definition SpawnShip ::
  "'p Collaborators \<Rightarrow> World \<Rightarrow> real \<Rightarrow> string \<Rightarrow> error + ('p lua_value list \<times> World)" where
  "SpawnShip ex w due type =
     (if ShipType_Get (shipTypes w) (c_str type) = None then
        Inr ([LNil, LString ''Unknown ship type''], w)
      else
        (case player w of
           None \<Rightarrow> Inl NullDereference
         | Some pl \<Rightarrow>
             (case objects w pl of
                None \<Rightarrow> Inl UseAfterFree
              | Some plo \<Rightarrow>
                  (let w0 = w\<lparr>rng_draws := rng_draws w + 3\<rparr> in
                   if due \<le> gameTime w0 then
                     (if \<not> systemBeingBuilt w0 then
                        Inr ([LNil, LString ''Insufficient time to generate ship entry''], w0)
                      else if due \<le> 0 \<or> due < gameTime w0 - HYPERCLOUD_DURATION ex then
                        spawn_direct ex w0 (c_str type)
                      else spawn_in_cloud ex w0 (c_str type) due)
                   else spawn_in_cloud ex w0 (c_str type) due))))"


section \<open>Runs of the system\<close>

text \<open>
  What can happen to the state between two observations: the simulation creates or
  destroys an object, the script calls a function of the API, or the garbage collector
  of the script frees a wrapper.
\<close>

datatype 'p action =
    Sim_new_Object Object
  | Sim_delete_Object obj_ptr
  | Lua_gc wrapper_ptr
  | Lua_GetPlayer
  | Lua_GetDockedWith wrapper_ptr
  | Lua_SetMoney wrapper_ptr real
  | Lua_AddAdvert wrapper_ptr string int string
  | Lua_RemoveAdvert wrapper_ptr string int
  | Lua_UserDataSerialize "'p lua_value"
  | Lua_UserDataUnserialize string
  | Lua_SpawnShip real string

definition state_of :: "error + ('a \<times> World) \<Rightarrow> error + World" where
  "state_of r = (case r of Inl e \<Rightarrow> Inl e | Inr (x, w) \<Rightarrow> Inr w)"

definition values_of :: "error + ('a \<times> World) \<Rightarrow> error + 'a" where
  "values_of r = (case r of Inl e \<Rightarrow> Inl e | Inr (x, w) \<Rightarrow> Inr x)"

fun step :: "'p Collaborators \<Rightarrow> World \<Rightarrow> 'p action \<Rightarrow> error + World" where
  "step ex w (Sim_new_Object ob) = Inr (snd (new_Object w ob))"
| "step ex w (Sim_delete_Object b) = delete_Object w b"
| "step ex w (Lua_gc h) = delete_ObjectWrapper w h"
| "step ex w Lua_GetPlayer = state_of (GetPlayer w :: error + ('p lua_value list \<times> World))"
| "step ex w (Lua_GetDockedWith h) = state_of (GetDockedWith w h)"
| "step ex w (Lua_SetMoney h m) = SetMoney w h m"
| "step ex w (Lua_AddAdvert h luaMod luaRef description) =
     SpaceStationAddAdvert w h luaMod luaRef description"
| "step ex w (Lua_RemoveAdvert h luaMod luaRef) = SpaceStationRemoveAdvert w h luaMod luaRef"
| "step ex w (Lua_UserDataSerialize v) = state_of (UserDataSerialize ex w v)"
| "step ex w (Lua_UserDataUnserialize str) = state_of (UserDataUnserialize ex w str)"
| "step ex w (Lua_SpawnShip due type) = state_of (SpawnShip ex w due type)"

fun run :: "'p Collaborators \<Rightarrow> World \<Rightarrow> 'p action list \<Rightarrow> error + World" where
  "run ex w [] = Inr w"
| "run ex w (a # as) = (case step ex w a of Inl e \<Rightarrow> Inl e | Inr w' \<Rightarrow> run ex w' as)"

text \<open>Vocabulary of the statements: the entity a handle wraps, if it exists and is attached.\<close>

definition entity_of :: "World \<Rightarrow> wrapper_ptr \<Rightarrow> obj_ptr option" where
  "entity_of w h = (case wrappers w h of None \<Rightarrow> None | Some ow \<Rightarrow> m_obj ow)"

text \<open>
  The consistency of a state: wrappers and objects sit below the allocation marks, a
  wrapper's connection is where its pointer is, every attached wrapper has its slot in
  the signal of a live object, and every slot of a signal belongs to a wrapper attached
  to that object.
\<close>

definition world_ok :: "World \<Rightarrow> bool" where
  "world_ok w \<longleftrightarrow>
     (\<forall>h ow. wrappers w h = Some ow \<longrightarrow> h < next_wrapper w \<and> m_delCon ow = m_obj ow)
   \<and> (\<forall>b ob. objects w b = Some ob \<longrightarrow> b < next_obj w)
   \<and> (\<forall>h ow b. wrappers w h = Some ow \<longrightarrow> m_obj ow = Some b \<longrightarrow>
          (\<exists>ob. objects w b = Some ob \<and> h \<in> set (onDelete ob)))
   \<and> (\<forall>b ob h. objects w b = Some ob \<longrightarrow> h \<in> set (onDelete ob) \<longrightarrow>
          (\<exists>ow. wrappers w h = Some ow \<and> m_obj ow = Some b))"


text \<open>
  Vocabulary of the proofs: a step that leaves every wrapper allocated so far as it was
  and ends in a consistent state.
\<close>

definition extends :: "World \<Rightarrow> World \<Rightarrow> bool" where
  "extends w w' \<longleftrightarrow>
     world_ok w' \<and> next_wrapper w \<le> next_wrapper w'
     \<and> (\<forall>h. h < next_wrapper w \<longrightarrow> wrappers w' h = wrappers w h)"


section \<open>Example states\<close>

definition example_slot_of :: "Equip_Type \<Rightarrow> Equip_Slot" where
  "example_slot_of e = 0"

definition example_equip :: EquipSet where
  "example_equip = \<lparr>equip = (\<lambda>s. [NONE, Item 1, NONE, NONE]), onChange_emitted = 0\<rparr>"

definition example_ship :: Object where
  "example_ship = \<lparr>otypes = [BODY, SHIP], label = ''Ship A'', money = 12345,
     dockedWith = Some 1, sbody = None, adverts = [], onDelete = []\<rparr>"

definition example_station :: Object where
  "example_station = \<lparr>otypes = [BODY, SPACESTATION], label = ''Station'', money = 0,
     dockedWith = None, sbody = Some 4, adverts = [], onDelete = []\<rparr>"

definition example_shiptype :: ShipType where
  "example_shiptype = \<lparr>name = ''Ladybird'', lmrModelName = ''ladybird'',
     linThrust = [1, 1, 1, 1, 1, 1], angThrust = 1, gunMount = [],
     equipSlotCapacity = [], capacity = 60, hullMass = 40, baseprice = 100,
     hyperdrive = NONE\<rparr>"

definition example_world :: World where
  "example_world = \<lparr>objects = [0 \<mapsto> example_ship, 1 \<mapsto> example_station], next_obj = 2,
     wrappers = Map.empty, next_wrapper = 0, registry = [], bodies = [0, 1],
     player = Some 0, shipTypes = [''Ladybird'' \<mapsto> example_shiptype],
     gameTime = 100, systemBeingBuilt = False, rng_draws = 0\<rparr>"

text \<open>
  An example of the collaborators: a path is kept as its own text; a system location is
  written as its three fields in decimal, one per line, and read back with \<^verbatim>\<open>atoi\<close>.
\<close>

definition int_of_text :: "string \<Rightarrow> int" where
  "int_of_text s = (case atoi s of Inl e \<Rightarrow> 0 | Inr v \<Rightarrow> v)"

definition next_line :: "string \<Rightarrow> string" where
  "next_line s = drop 1 (dropWhile (\<lambda>c. c \<noteq> newline) s)"

definition example_ex :: "string Collaborators" where
  "example_ex = \<lparr>SBodyPath_Serialize = (\<lambda>p. p), SBodyPath_Unserialize = (\<lambda>s. s),
     SysLoc_Serialize = (\<lambda>l. printf_d (sectorX l) @ [newline] @ printf_d (sectorY l)
        @ [newline] @ printf_d (systemIdx l)),
     SysLoc_Unserialize = (\<lambda>s. \<lparr>sectorX = int_of_text s,
        sectorY = int_of_text (next_line s), systemIdx = int_of_text (next_line (next_line s))\<rparr>),
     new_Ship = (\<lambda>t. \<lparr>otypes = [BODY, SHIP], label = t, money = 0,
        dockedWith = None, sbody = None, adverts = [], onDelete = []\<rparr>),
     new_HyperspaceCloud = (\<lambda>ship due arrival. \<lparr>otypes = [BODY, OTHER_TYPE 0], label = [],
        money = 0, dockedWith = None, sbody = None, adverts = [], onDelete = []\<rparr>),
     HYPERCLOUD_DURATION = 172800\<rparr>"

text \<open>The state after the script has taken a handle on the player's ship: handle 0 on object 0.\<close>

definition example_world1 :: World where
  "example_world1 = example_world\<lparr>
     objects := [0 \<mapsto> example_ship\<lparr>onDelete := [0]\<rparr>, 1 \<mapsto> example_station],
     wrappers := [0 \<mapsto> \<lparr>m_obj = Some 0, m_delCon = Some 0\<rparr>],
     next_wrapper := 1\<rparr>"

text \<open>The state after the simulation has then destroyed the ship: handle 0 is detached.\<close>

definition example_world2 :: World where
  "example_world2 = example_world\<lparr>
     objects := [1 \<mapsto> example_station],
     wrappers := [0 \<mapsto> \<lparr>m_obj = None, m_delCon = None\<rparr>],
     next_wrapper := 1\<rparr>"

text \<open>A state with one handle, on the station.\<close>

definition example_world3 :: World where
  "example_world3 = example_world\<lparr>
     objects := [0 \<mapsto> example_ship, 1 \<mapsto> example_station\<lparr>onDelete := [0]\<rparr>],
     wrappers := [0 \<mapsto> \<lparr>m_obj = Some 1, m_delCon = Some 1\<rparr>],
     next_wrapper := 1\<rparr>"

definition example_path :: SBodyPath where
  "example_path = [0, 3, 1]"

text \<open>The collaborators of the examples with the field codecs of the spec's grammar.\<close>

definition example_spec_ex :: "SBodyPath Collaborators" where
  "example_spec_ex = \<lparr>SBodyPath_Serialize = spec_SBodyPath_Serialize,
     SBodyPath_Unserialize = spec_SBodyPath_Unserialize,
     SysLoc_Serialize = spec_SysLoc_Serialize,
     SysLoc_Unserialize = spec_SysLoc_Unserialize,
     new_Ship = new_Ship example_ex,
     new_HyperspaceCloud = new_HyperspaceCloud example_ex,
     HYPERCLOUD_DURATION = 172800\<rparr>"

definition example_sysloc :: SysLoc where
  "example_sysloc = \<lparr>sectorX = 3, sectorY = - 2, systemIdx = 7\<rparr>"

text \<open>The state after the ship was encoded once (id 0) and then destroyed.\<close>

definition example_world4 :: World where
  "example_world4 = example_world2\<lparr>registry := [0]\<rparr>"

definition example_bogus :: string where
  "example_bogus = ''Bogus'' @ [newline] @ ''xyz''"

definition example_nul_name :: string where
  "example_nul_name = ''Ladybird'' @ [CHR 0x00, CHR ''x'']"

section \<open>Properties of the equipment slots\<close>

lemma empties_Nil [simp]: "empties [] = 0" by (simp add: empties_def)
lemma empties_Cons [simp]: "empties (x # xs) = (if x = NONE then Suc (empties xs) else empties xs)"
  by (simp add: empties_def)

lemma FreeSpace_loop_eq:
  "FreeSpace_loop v i free = free + int (empties (drop i v))"
proof (induction v i free rule: FreeSpace_loop.induct)
  case (1 v i free)
  show ?case
  proof (cases "i < length v")
    case True
    then have d: "drop i v = v ! i # drop (Suc i) v" by (simp add: Cons_nth_drop_Suc)
    have "FreeSpace_loop v i free = FreeSpace_loop v (Suc i) (if v ! i = NONE then free + 1 else free)"
      using True by (subst FreeSpace_loop.simps) simp
    also have "\<dots> = (if v ! i = NONE then free + 1 else free) + int (empties (drop (Suc i) v))"
      using 1 True by simp
    finally show ?thesis by (simp add: d)
  next
    case False
    then have "FreeSpace_loop v i free = free" by (subst FreeSpace_loop.simps) simp
    with False show ?thesis by simp
  qed
qed

lemma Add_loop_end: "\<not> i < length v \<Longrightarrow> Add_loop e num v i n = (v, n)"
  by (subst Add_loop.simps) simp

lemma Add_loop_break: "i < length v \<Longrightarrow> Add_loop e num v i num = (v, num)"
  by (subst Add_loop.simps) simp

lemma Add_loop_fill:
  "i < length v \<Longrightarrow> n \<noteq> num \<Longrightarrow> v ! i = NONE \<Longrightarrow>
   Add_loop e num v i n = Add_loop e num (v[i := e]) (Suc i) (n + 1)"
  by (subst Add_loop.simps) simp

lemma Add_loop_skip:
  "i < length v \<Longrightarrow> n \<noteq> num \<Longrightarrow> v ! i \<noteq> NONE \<Longrightarrow>
   Add_loop e num v i n = Add_loop e num v (Suc i) n"
  by (subst Add_loop.simps) simp

lemma filled_step_fill:
  assumes "i < length v" "v ! i = NONE" "n < num" "k < length v" "k \<noteq> i"
  shows "filled (v[i := e]) (Suc i) (n + 1) num k = filled v i n num k"
proof (cases "k < i")
  case True then show ?thesis by (simp add: filled_def)
next
  case False
  with assms have gt: "Suc i \<le> k" by simp
  then obtain m where m: "k - i = Suc m" "k - Suc i = m"
    by (metis Suc_diff_le diff_Suc_Suc)
  have d: "drop i v = v ! i # drop (Suc i) v" using assms(1) by (simp add: Cons_nth_drop_Suc)
  from gt assms show ?thesis by (simp add: filled_def d m add.assoc)
qed

lemma filled_step_skip:
  assumes "i < length v" "v ! i \<noteq> NONE" "k < length v"
  shows "filled v (Suc i) n num k = filled v i n num k"
proof (cases "k \<le> i")
  case True with assms show ?thesis by (auto simp add: filled_def)
next
  case False
  then have gt: "Suc i \<le> k" by simp
  then obtain m where m: "k - i = Suc m" "k - Suc i = m"
    by (metis Suc_diff_le diff_Suc_Suc)
  have d: "drop i v = v ! i # drop (Suc i) v" using assms(1) by (simp add: Cons_nth_drop_Suc)
  from gt assms show ?thesis by (simp add: filled_def d m)
qed

lemma Add_loop_spec:
  "0 \<le> n \<Longrightarrow> n \<le> num \<Longrightarrow>
   Add_loop e num v i n = (v', n') \<Longrightarrow>
   length v' = length v
     \<and> n' = min num (n + int (empties (drop i v)))
     \<and> (\<forall>k < length v. v' ! k = (if filled v i n num k then e else v ! k))"
proof (induction e num v i n arbitrary: v' n' rule: Add_loop.induct)
  case (1 e num v i n)
  show ?case
  proof (cases "i < length v")
    case False
    with 1(5) have "v' = v" "n' = n" by (simp_all add: Add_loop_end)
    moreover have "\<forall>k < length v. \<not> filled v i n num k" using False by (simp add: filled_def)
    ultimately show ?thesis using False 1(4) by simp
  next
    case lt: True
    then have d: "drop i v = v ! i # drop (Suc i) v" by (simp add: Cons_nth_drop_Suc)
    show ?thesis
    proof (cases "n = num")
      case True
      with lt 1(5) have "v' = v" "n' = n" by (simp_all add: Add_loop_break)
      moreover have "\<forall>k < length v. \<not> filled v i n num k" using True by (simp add: filled_def)
      ultimately show ?thesis using True by simp
    next
      case ne: False
      with 1(4) have less: "n < num" by simp
      show ?thesis
      proof (cases "v ! i = NONE")
        case True
        from lt ne True 1(5) have r: "Add_loop e num (v[i := e]) (Suc i) (n + 1) = (v', n')"
          by (simp add: Add_loop_fill)
        have "0 \<le> n + 1" "n + 1 \<le> num" using 1(3) less by simp_all
        from 1(1)[OF lt ne True this r]
        have ih: "length v' = length v"
          "n' = min num (n + 1 + int (empties (drop (Suc i) v)))"
          "\<forall>k < length v. v' ! k = (if filled (v[i := e]) (Suc i) (n + 1) num k then e else (v[i := e]) ! k)"
          by simp_all
        have "v' ! k = (if filled v i n num k then e else v ! k)" if k: "k < length v" for k
        proof (cases "k = i")
          case True
          have "\<not> filled (v[i := e]) (Suc i) (n + 1) num i" by (simp add: filled_def)
          moreover have "filled v i n num i" using \<open>v ! i = NONE\<close> less by (simp add: filled_def)
          ultimately show ?thesis using ih(3) k True by simp
        next
          case False
          with ih(3) k filled_step_fill[OF lt True less k False, of e] show ?thesis by simp
        qed
        with ih(1,2) True show ?thesis by (simp add: d)
      next
        case False
        from lt ne False 1(5) have r: "Add_loop e num v (Suc i) n = (v', n')"
          by (simp add: Add_loop_skip)
        from 1(2)[OF lt ne False 1(3) 1(4) r]
        have ih: "length v' = length v"
          "n' = min num (n + int (empties (drop (Suc i) v)))"
          "\<forall>k < length v. v' ! k = (if filled v (Suc i) n num k then e else v ! k)"
          by simp_all
        have "v' ! k = (if filled v i n num k then e else v ! k)" if k: "k < length v" for k
          using ih(3) k filled_step_skip[OF lt False k, of n num] by simp
        with ih(1,2) False show ?thesis by (simp add: d)
      qed
    qed
  qed
qed


lemma empties_update:
  "i < length v \<Longrightarrow> v ! i = NONE \<Longrightarrow> e \<noteq> NONE \<Longrightarrow> Suc (empties (v[i := e])) = empties v"
proof (induction v arbitrary: i)
  case Nil
  then show ?case by simp
next
  case (Cons x xs)
  then show ?case by (cases i) auto
qed

lemma Add_loop_empties:
  "e \<noteq> NONE \<Longrightarrow> Add_loop e num v i n = (v', n') \<Longrightarrow>
   int (empties v') = int (empties v) - (n' - n)"
proof (induction e num v i n arbitrary: v' n' rule: Add_loop.induct)
  case (1 e num v i n)
  show ?case
  proof (cases "i < length v")
    case False
    with 1(4) show ?thesis by (simp add: Add_loop_end)
  next
    case lt: True
    show ?thesis
    proof (cases "n = num")
      case True
      with lt 1(4) show ?thesis by (simp add: Add_loop_break)
    next
      case ne: False
      show ?thesis
      proof (cases "v ! i = NONE")
        case True
        from lt ne True 1(4) have r: "Add_loop e num (v[i := e]) (Suc i) (n + 1) = (v', n')"
          by (simp add: Add_loop_fill)
        from 1(1)[OF lt ne True 1(3) r] empties_update[OF lt True 1(3)]
        show ?thesis by simp
      next
        case False
        from lt ne False 1(4) have r: "Add_loop e num v (Suc i) n = (v', n')"
          by (simp add: Add_loop_skip)
        from 1(2)[OF lt ne False 1(3) r] show ?thesis .
      qed
    qed
  qed
qed


text \<open>
  Claim C10. For every equipment type \<open>e\<close> and count \<open>num \<ge> 0\<close>, \<open>Add e num\<close> keeps the
  length of the slot vector of \<open>e\<close> and fills slot \<open>k\<close> with \<open>e\<close> exactly when the slot was
  empty and fewer than \<open>num\<close> empty slots lie below it: the lowest \<open>min num free\<close> empty
  slots, where \<open>free\<close> is what \<open>FreeSpace\<close> returned before the call. Every other slot,
  and every other slot vector, is unchanged. For \<open>e\<close> other than \<open>NONE\<close> the free space
  drops by \<open>min num free\<close>. The call returns true if and only if \<open>num \<le> free\<close>.
\<close>

theorem Add_fills:
  assumes "0 \<le> num" and "Add slot_of es e num = (ok, es')"
  shows "(let s = slot_of e; old = equip es s; new = equip es' s in
           length new = length old
         \<and> (\<forall>k < length old. new ! k =
               (if old ! k = NONE \<and> int (empties (take k old)) < num then e else old ! k))
         \<and> (\<forall>t. t \<noteq> s \<longrightarrow> equip es' t = equip es t)
         \<and> (e \<noteq> NONE \<longrightarrow> FreeSpace es s - FreeSpace es' s = min num (FreeSpace es s))
         \<and> (ok \<longleftrightarrow> num \<le> FreeSpace es s))"
proof -
  obtain v n where L: "Add_loop e num (equip es (slot_of e)) 0 0 = (v, n)" by force
  from Add_loop_spec[OF _ assms(1) L]
  have sp: "length v = length (equip es (slot_of e))"
    "n = min num (int (empties (equip es (slot_of e))))"
    "\<forall>k < length (equip es (slot_of e)). v ! k = (if filled (equip es (slot_of e)) 0 0 num k then e else equip es (slot_of e) ! k)"
    by simp_all
  from assms(2) L have ok: "ok = (n = num)" and es': "equip es' = (equip es)((slot_of e) := v)"
    by (auto simp: Add_def Let_def)
  have fs: "FreeSpace es (slot_of e) = int (empties (equip es (slot_of e)))"
    by (simp add: FreeSpace_def FreeSpace_loop_eq)
  have fs': "FreeSpace es' (slot_of e) = int (empties v)"
    by (simp add: FreeSpace_def FreeSpace_loop_eq es')
  have diff: "e \<noteq> NONE \<Longrightarrow> int (empties v) = int (empties (equip es (slot_of e))) - n"
    using Add_loop_empties[OF _ L] by simp
  have fl: "filled (equip es (slot_of e)) 0 0 num k
      = (equip es (slot_of e) ! k = NONE \<and> int (empties (take k (equip es (slot_of e)))) < num)" for k
    by (simp add: filled_def)
  have okfs: "ok \<longleftrightarrow> num \<le> FreeSpace es (slot_of e)"
    using sp(2) ok fs by auto
  show ?thesis
    unfolding Let_def
    using sp(1) sp(3) es' diff fs fs' okfs sp(2) by (simp add: fl)
qed


theorem Add_fills_witness:
  "(0::int) \<le> 2
   \<and> fst (Add example_slot_of example_equip (Item 3) 2)
   \<and> equip (snd (Add example_slot_of example_equip (Item 3) 2)) 0
       = [Item 3, Item 1, Item 3, NONE]
   \<and> FreeSpace example_equip 0
       - FreeSpace (snd (Add example_slot_of example_equip (Item 3) 2)) 0 = 2"
proof -
  have r: "Add example_slot_of example_equip (Item 3) 2 =
      (fst (Add example_slot_of example_equip (Item 3) 2),
       snd (Add example_slot_of example_equip (Item 3) 2))"
    by simp
  have fs: "FreeSpace example_equip 0 = 3" by code_simp
  have e: "equip (snd (Add example_slot_of example_equip (Item 3) 2)) 0
      = [Item 3, Item 1, Item 3, NONE]"
    by code_simp
  from Add_fills[OF _ r] fs e show ?thesis
    by (simp add: example_slot_of_def Let_def)
qed

section \<open>Properties of handles and of the destruction of objects\<close>

lemma okD_fresh: "world_ok w \<Longrightarrow> wrappers w h = Some ow \<Longrightarrow> h < next_wrapper w"
  by (simp add: world_ok_def)
lemma okD_con: "world_ok w \<Longrightarrow> wrappers w h = Some ow \<Longrightarrow> m_delCon ow = m_obj ow"
  by (simp add: world_ok_def)
lemma okD_obj: "world_ok w \<Longrightarrow> objects w b = Some ob \<Longrightarrow> b < next_obj w"
  by (simp add: world_ok_def)
lemma okD_sub: "world_ok w \<Longrightarrow> wrappers w h = Some ow \<Longrightarrow> m_obj ow = Some b \<Longrightarrow>
    \<exists>ob. objects w b = Some ob \<and> h \<in> set (onDelete ob)"
  unfolding world_ok_def by blast
lemma okD_slot: "world_ok w \<Longrightarrow> objects w b = Some ob \<Longrightarrow> h \<in> set (onDelete ob) \<Longrightarrow>
    \<exists>ow. wrappers w h = Some ow \<and> m_obj ow = Some b"
  unfolding world_ok_def by blast

lemma world_okI:
  assumes "\<And>h ow. wrappers w h = Some ow \<Longrightarrow> h < next_wrapper w"
    and "\<And>h ow. wrappers w h = Some ow \<Longrightarrow> m_delCon ow = m_obj ow"
    and "\<And>b ob. objects w b = Some ob \<Longrightarrow> b < next_obj w"
    and "\<And>h ow b. wrappers w h = Some ow \<Longrightarrow> m_obj ow = Some b \<Longrightarrow>
          \<exists>ob. objects w b = Some ob \<and> h \<in> set (onDelete ob)"
    and "\<And>b ob h. objects w b = Some ob \<Longrightarrow> h \<in> set (onDelete ob) \<Longrightarrow>
          \<exists>ow. wrappers w h = Some ow \<and> m_obj ow = Some b"
  shows "world_ok w"
  unfolding world_ok_def using assms by blast

lemma world_ok_new_Object:
  assumes "world_ok w" "new_Object w ob = (b, w')"
  shows "world_ok w'"
proof -
  from assms(2) have w': "w' = w\<lparr>objects := (objects w)(next_obj w \<mapsto> ob\<lparr>onDelete := []\<rparr>), next_obj := Suc (next_obj w)\<rparr>"
    by (auto simp: new_Object_def Let_def)
  have fresh: "objects w (next_obj w) = None"
    using okD_obj[OF assms(1)] by (cases "objects w (next_obj w)") auto
  show ?thesis
  proof (rule world_okI)
    fix h ow assume "wrappers w' h = Some ow"
    then show "h < next_wrapper w'" "m_delCon ow = m_obj ow"
      using okD_fresh[OF assms(1)] okD_con[OF assms(1)] by (auto simp: w')
  next
    fix b ob assume "objects w' b = Some ob"
    then show "b < next_obj w'" using okD_obj[OF assms(1)]
      by (auto simp: w' less_Suc_eq split: if_splits)
  next
    fix h ow b assume "wrappers w' h = Some ow" "m_obj ow = Some b"
    then show "\<exists>ob. objects w' b = Some ob \<and> h \<in> set (onDelete ob)"
      using okD_sub[OF assms(1), of h ow b] fresh by (auto simp: w')
  next
    fix b ob h assume "objects w' b = Some ob" "h \<in> set (onDelete ob)"
    then show "\<exists>ow. wrappers w' h = Some ow \<and> m_obj ow = Some b"
      using okD_slot[OF assms(1), of b ob h] by (auto simp: w' split: if_splits)
  qed
qed

lemma new_ObjectWrapper_Inr:
  "new_ObjectWrapper w p = Inr (h, w') \<longleftrightarrow>
     (\<exists>b ob. p = Some b \<and> objects w b = Some ob \<and> h = next_wrapper w \<and>
        w' = w\<lparr>objects := (objects w)(b \<mapsto> ob\<lparr>onDelete := onDelete ob @ [next_wrapper w]\<rparr>),
              wrappers := (wrappers w)(next_wrapper w \<mapsto> \<lparr>m_obj = Some b, m_delCon = Some b\<rparr>),
              next_wrapper := Suc (next_wrapper w)\<rparr>)"
  by (auto simp: new_ObjectWrapper_def connect_def Let_def split: option.splits)

lemma world_ok_new_ObjectWrapper:
  assumes "world_ok w" "new_ObjectWrapper w p = Inr (h, w')"
  shows "world_ok w'"
proof -
  from assms(2) obtain b ob where p: "p = Some b" and ob: "objects w b = Some ob"
    and h: "h = next_wrapper w"
    and w': "w' = w\<lparr>objects := (objects w)(b \<mapsto> ob\<lparr>onDelete := onDelete ob @ [next_wrapper w]\<rparr>),
              wrappers := (wrappers w)(next_wrapper w \<mapsto> \<lparr>m_obj = Some b, m_delCon = Some b\<rparr>),
              next_wrapper := Suc (next_wrapper w)\<rparr>"
    unfolding new_ObjectWrapper_Inr by blast
  have fresh: "wrappers w (next_wrapper w) = None"
    using okD_fresh[OF assms(1)] by (cases "wrappers w (next_wrapper w)") auto
  show ?thesis
  proof (rule world_okI)
    fix h ow assume "wrappers w' h = Some ow"
    then show "h < next_wrapper w'" "m_delCon ow = m_obj ow"
      using okD_fresh[OF assms(1)] okD_con[OF assms(1)]
      by (auto simp: w' less_Suc_eq split: if_splits)
  next
    fix b ob assume "objects w' b = Some ob"
    then show "b < next_obj w'" using okD_obj[OF assms(1)] ob
      by (auto simp: w' split: if_splits)
  next
    fix h' ow b' assume "wrappers w' h' = Some ow" "m_obj ow = Some b'"
    then show "\<exists>ob. objects w' b' = Some ob \<and> h' \<in> set (onDelete ob)"
      using okD_sub[OF assms(1), of h' ow b'] ob by (auto simp: w' split: if_splits)
  next
    fix b' ob' h' assume "objects w' b' = Some ob'" "h' \<in> set (onDelete ob')"
    then show "\<exists>ow. wrappers w' h' = Some ow \<and> m_obj ow = Some b'"
      using okD_slot[OF assms(1), of b' _ h'] ob fresh by (auto simp: w' split: if_splits)
  qed
qed

lemma OnDelete_Inr:
  "OnDelete w h = Inr w' \<longleftrightarrow>
     (\<exists>ow. wrappers w h = Some ow \<and>
        w' = disconnect (w\<lparr>wrappers := (wrappers w)(h \<mapsto> ow\<lparr>m_obj := None\<rparr>)\<rparr>) h)"
  by (auto simp: OnDelete_def split: option.splits)

lemma disconnect_next [simp]:
  "next_wrapper (disconnect w h) = next_wrapper w" "next_obj (disconnect w h) = next_obj w"
  by (auto simp: disconnect_def Let_def split: option.splits)

lemma disconnect_wrappers:
  "wrappers (disconnect w h) h' =
     (if h' = h then map_option (\<lambda>ow. ow\<lparr>m_delCon := None\<rparr>) (wrappers w h) else wrappers w h')"
  by (auto simp: disconnect_def Let_def split: option.splits)

lemma disconnect_objects:
  "objects (disconnect w h) b =
     (case wrappers w h of
        None \<Rightarrow> objects w b
      | Some ow \<Rightarrow>
          if m_delCon ow = Some b
          then map_option (\<lambda>ob. ob\<lparr>onDelete := removeAll h (onDelete ob)\<rparr>) (objects w b)
          else objects w b)"
  by (auto simp: disconnect_def Let_def split: option.splits)

lemma world_ok_OnDelete:
  assumes "world_ok w" "OnDelete w h = Inr w'"
  shows "world_ok w'"
proof -
  from assms(2) obtain ow where ow: "wrappers w h = Some ow"
    and w': "w' = disconnect (w\<lparr>wrappers := (wrappers w)(h \<mapsto> ow\<lparr>m_obj := None\<rparr>)\<rparr>) h"
    unfolding OnDelete_Inr by blast
  have con: "m_delCon ow = m_obj ow" using okD_con[OF assms(1) ow] .
  have W: "wrappers w' h' = (if h' = h then Some (ow\<lparr>m_obj := None, m_delCon := None\<rparr>) else wrappers w h')" for h'
    by (simp add: w' disconnect_wrappers)
  have O: "objects w' b = (if m_obj ow = Some b
          then map_option (\<lambda>ob. ob\<lparr>onDelete := removeAll h (onDelete ob)\<rparr>) (objects w b)
          else objects w b)" for b
    by (simp add: w' disconnect_objects con)
  have N: "next_wrapper w' = next_wrapper w" "next_obj w' = next_obj w"
    by (simp_all add: w')
  show ?thesis
  proof (rule world_okI)
    fix h' ow' assume "wrappers w' h' = Some ow'"
    then show "h' < next_wrapper w'" "m_delCon ow' = m_obj ow'"
      using okD_fresh[OF assms(1)] okD_con[OF assms(1)] ow
      by (auto simp: W N split: if_splits)
  next
    fix b ob assume "objects w' b = Some ob"
    then show "b < next_obj w'" using okD_obj[OF assms(1)]
      by (auto simp: O N split: if_splits)
  next
    fix h' ow' b assume "wrappers w' h' = Some ow'" "m_obj ow' = Some b"
    then show "\<exists>ob. objects w' b = Some ob \<and> h' \<in> set (onDelete ob)"
      using okD_sub[OF assms(1), of h' ow' b] by (auto simp: W O split: if_splits)
  next
    fix b ob' h' assume a: "objects w' b = Some ob'" "h' \<in> set (onDelete ob')"
    show "\<exists>ow. wrappers w' h' = Some ow \<and> m_obj ow = Some b"
    proof (cases "m_obj ow = Some b")
      case True
      with a obtain ob where "objects w b = Some ob" "h' \<in> set (onDelete ob)" "h' \<noteq> h"
        by (auto simp: O)
      with okD_slot[OF assms(1), of b ob h'] show ?thesis by (simp add: W)
    next
      case False
      with a have "objects w b = Some ob'" by (simp add: O)
      from okD_slot[OF assms(1) this a(2)] obtain ow2 where o2: "wrappers w h' = Some ow2" "m_obj ow2 = Some b" by blast
      with False ow have "h' \<noteq> h" by auto
      with o2 show ?thesis by (simp add: W)
    qed
  qed
qed

lemma OnDelete_ok: "wrappers w h \<noteq> None \<Longrightarrow> \<exists>w'. OnDelete w h = Inr w'"
  by (auto simp: OnDelete_def split: option.splits)

lemma OnDelete_wrappers:
  "OnDelete w h = Inr w' \<Longrightarrow>
   wrappers w' h' = (if h' = h then map_option (\<lambda>ow. ow\<lparr>m_obj := None, m_delCon := None\<rparr>) (wrappers w h)
                     else wrappers w h')"
  by (auto simp: OnDelete_Inr disconnect_wrappers)

lemma OnDelete_objects:
  "world_ok w \<Longrightarrow> OnDelete w h = Inr w' \<Longrightarrow> wrappers w h = Some ow \<Longrightarrow>
   objects w' b = (if m_obj ow = Some b
          then map_option (\<lambda>ob. ob\<lparr>onDelete := removeAll h (onDelete ob)\<rparr>) (objects w b)
          else objects w b)"
  using okD_con[of w h ow] by (auto simp: OnDelete_Inr disconnect_objects)

lemma filter_notin_skip:
  "h \<notin> set xs \<Longrightarrow> filter (\<lambda>x. x \<noteq> h \<and> x \<notin> set hs) xs = filter (\<lambda>x. x \<notin> set hs) xs"
  by (rule filter_cong) auto

lemma filter_removeAll_slots:
  "filter (\<lambda>x. x \<notin> set hs) (removeAll h xs) = filter (\<lambda>x. x \<noteq> h \<and> x \<notin> set hs) xs"
  by (induction xs) auto

text \<open>What an emission over the slots hs of the signal of b does.\<close>

lemma emit_spec:
  "world_ok w \<Longrightarrow> objects w b = Some ob \<Longrightarrow>
   \<exists>w'. emit w b hs = Inr w' \<and> world_ok w'
      \<and> next_wrapper w' = next_wrapper w \<and> next_obj w' = next_obj w
      \<and> (\<forall>b'. b' \<noteq> b \<longrightarrow> objects w' b' = objects w b')
      \<and> objects w' b = Some (ob\<lparr>onDelete := filter (\<lambda>h. h \<notin> set hs) (onDelete ob)\<rparr>)
      \<and> (\<forall>h. wrappers w' h =
            (if h \<in> set hs \<and> h \<in> set (onDelete ob)
             then map_option (\<lambda>ow. ow\<lparr>m_obj := None, m_delCon := None\<rparr>) (wrappers w h)
             else wrappers w h))"
proof (induction hs arbitrary: w ob)
  case Nil
  then show ?case by simp
next
  case (Cons h hs)
  show ?case
  proof (cases "h \<in> set (onDelete ob)")
    case False
    from Cons.IH[OF Cons.prems] obtain w' where w': "emit w b hs = Inr w'" "world_ok w'"
      "next_wrapper w' = next_wrapper w" "next_obj w' = next_obj w"
      "\<forall>b'. b' \<noteq> b \<longrightarrow> objects w' b' = objects w b'"
      "objects w' b = Some (ob\<lparr>onDelete := filter (\<lambda>h. h \<notin> set hs) (onDelete ob)\<rparr>)"
      "\<forall>h. wrappers w' h =
            (if h \<in> set hs \<and> h \<in> set (onDelete ob)
             then map_option (\<lambda>ow. ow\<lparr>m_obj := None, m_delCon := None\<rparr>) (wrappers w h)
             else wrappers w h)"
      by blast
    from False Cons.prems w' show ?thesis
      by (auto simp: filter_notin_skip)
  next
    case True
    from okD_slot[OF Cons.prems True] obtain ow where ow: "wrappers w h = Some ow" "m_obj ow = Some b"
      by blast
    then obtain w1 where w1: "OnDelete w h = Inr w1" using OnDelete_ok[of w h] by auto
    have ok1: "world_ok w1" using world_ok_OnDelete[OF Cons.prems(1) w1] .
    have O1: "objects w1 b' = (if b' = b then Some (ob\<lparr>onDelete := removeAll h (onDelete ob)\<rparr>) else objects w b')" for b'
      using OnDelete_objects[OF Cons.prems(1) w1 ow(1), of b'] ow(2) Cons.prems(2) by auto
    have W1: "wrappers w1 h' = (if h' = h then Some (ow\<lparr>m_obj := None, m_delCon := None\<rparr>) else wrappers w h')" for h'
      using OnDelete_wrappers[OF w1, of h'] ow by simp
    have N1: "next_wrapper w1 = next_wrapper w" "next_obj w1 = next_obj w"
      using w1 by (auto simp: OnDelete_Inr)
    from Cons.IH[OF ok1, of "ob\<lparr>onDelete := removeAll h (onDelete ob)\<rparr>"] O1
    obtain w' where w': "emit w1 b hs = Inr w'" "world_ok w'"
      "next_wrapper w' = next_wrapper w1" "next_obj w' = next_obj w1"
      "\<forall>b'. b' \<noteq> b \<longrightarrow> objects w' b' = objects w1 b'"
      "objects w' b = Some (ob\<lparr>onDelete := filter (\<lambda>x. x \<notin> set hs) (removeAll h (onDelete ob))\<rparr>)"
      "\<forall>h'. wrappers w' h' =
            (if h' \<in> set hs \<and> h' \<in> set (removeAll h (onDelete ob))
             then map_option (\<lambda>ow. ow\<lparr>m_obj := None, m_delCon := None\<rparr>) (wrappers w1 h')
             else wrappers w1 h')"
      by auto
    note f = filter_removeAll_slots[of hs h "onDelete ob"]
    have e: "emit w b (h # hs) = Inr w'"
      using Cons.prems(2) True w1 w'(1) by simp
    have "\<forall>h'. wrappers w' h' =
            (if h' \<in> set (h # hs) \<and> h' \<in> set (onDelete ob)
             then map_option (\<lambda>ow. ow\<lparr>m_obj := None, m_delCon := None\<rparr>) (wrappers w h')
             else wrappers w h')"
      using w'(7) W1 True ow by auto
    with e w'(2-6) N1 O1 f show ?thesis by auto
  qed
qed



lemma delete_ObjectWrapper_spec:
  assumes "world_ok w" "wrappers w h = Some ow"
  shows "\<exists>w'. delete_ObjectWrapper w h = Inr w' \<and> world_ok w'
      \<and> next_wrapper w' = next_wrapper w \<and> next_obj w' = next_obj w
      \<and> (\<forall>h'. wrappers w' h' = (if h' = h then None else wrappers w h'))
      \<and> (\<forall>b ob. objects w' b = Some ob \<longrightarrow> h \<notin> set (onDelete ob))
      \<and> (\<forall>b. (objects w' b = None) = (objects w b = None))"
proof -
  define w' where "w' = (disconnect w h)\<lparr>wrappers := (wrappers (disconnect w h))(h := None)\<rparr>"
  have d: "delete_ObjectWrapper w h = Inr w'"
    using assms(2) by (simp add: delete_ObjectWrapper_def w'_def Let_def)
  have con: "m_delCon ow = m_obj ow" using okD_con[OF assms] .
  have W: "wrappers w' h' = (if h' = h then None else wrappers w h')" for h'
    by (simp add: w'_def disconnect_wrappers)
  have O: "objects w' b = (if m_obj ow = Some b
          then map_option (\<lambda>ob. ob\<lparr>onDelete := removeAll h (onDelete ob)\<rparr>) (objects w b)
          else objects w b)" for b
    using assms(2) by (simp add: w'_def disconnect_objects con)
  have N: "next_wrapper w' = next_wrapper w" "next_obj w' = next_obj w"
    by (simp_all add: w'_def)
  have notin: "h \<notin> set (onDelete ob)" if "objects w' b = Some ob" for b ob
  proof (cases "m_obj ow = Some b")
    case True
    with that show ?thesis by (auto simp: O)
  next
    case False
    with that have o: "objects w b = Some ob" by (simp add: O)
    show ?thesis
    proof
      assume "h \<in> set (onDelete ob)"
      from okD_slot[OF assms(1) o this] assms(2) False show False by auto
    qed
  qed
  have ok: "world_ok w'"
  proof (rule world_okI)
    fix h' ow' assume "wrappers w' h' = Some ow'"
    then show "h' < next_wrapper w'" "m_delCon ow' = m_obj ow'"
      using okD_fresh[OF assms(1)] okD_con[OF assms(1)]
      by (auto simp: W N split: if_splits)
  next
    fix b ob assume "objects w' b = Some ob"
    then show "b < next_obj w'" using okD_obj[OF assms(1)]
      by (auto simp: O N split: if_splits)
  next
    fix h' ow' b assume "wrappers w' h' = Some ow'" "m_obj ow' = Some b"
    then show "\<exists>ob. objects w' b = Some ob \<and> h' \<in> set (onDelete ob)"
      using okD_sub[OF assms(1), of h' ow' b] by (auto simp: W O split: if_splits)
  next
    fix b ob' h' assume a: "objects w' b = Some ob'" "h' \<in> set (onDelete ob')"
    from notin[OF a(1)] a(2) have ne: "h' \<noteq> h" by auto
    from a obtain ob where "objects w b = Some ob" "h' \<in> set (onDelete ob)"
      by (auto simp: O split: if_splits)
    from okD_slot[OF assms(1) this] ne
    show "\<exists>ow. wrappers w' h' = Some ow \<and> m_obj ow = Some b" by (simp add: W)
  qed
  have dom: "(objects w' b = None) = (objects w b = None)" for b
    by (simp add: O)
  from d ok N W notin dom show ?thesis by blast
qed

lemma delete_Object_spec:
  assumes "world_ok w" "objects w b = Some ob"
  shows "\<exists>w'. delete_Object w b = Inr w' \<and> world_ok w'
      \<and> next_wrapper w' = next_wrapper w \<and> next_obj w' = next_obj w
      \<and> (\<forall>b'. objects w' b' = (if b' = b then None else objects w b'))
      \<and> (\<forall>h. wrappers w' h =
            (if h \<in> set (onDelete ob)
             then map_option (\<lambda>ow. ow\<lparr>m_obj := None, m_delCon := None\<rparr>) (wrappers w h)
             else wrappers w h))"
proof -
  from emit_spec[OF assms, of "onDelete ob"] obtain w1 where w1: "emit w b (onDelete ob) = Inr w1"
    "world_ok w1" "next_wrapper w1 = next_wrapper w" "next_obj w1 = next_obj w"
    "\<forall>b'. b' \<noteq> b \<longrightarrow> objects w1 b' = objects w b'"
    "objects w1 b = Some (ob\<lparr>onDelete := filter (\<lambda>h. h \<notin> set (onDelete ob)) (onDelete ob)\<rparr>)"
    "\<forall>h. wrappers w1 h =
            (if h \<in> set (onDelete ob) \<and> h \<in> set (onDelete ob)
             then map_option (\<lambda>ow. ow\<lparr>m_obj := None, m_delCon := None\<rparr>) (wrappers w h)
             else wrappers w h)"
    by blast
  define w' where "w' = w1\<lparr>objects := (objects w1)(b := None)\<rparr>"
  have d: "delete_Object w b = Inr w'"
    using assms(2) w1(1) by (simp add: delete_Object_def w'_def)
  have e: "filter (\<lambda>h. h \<notin> set (onDelete ob)) (onDelete ob) = []"
    by (simp add: filter_empty_conv)
  have O: "objects w' b' = (if b' = b then None else objects w b')" for b'
    using w1(5) by (simp add: w'_def)
  have W: "wrappers w' h = wrappers w1 h" for h by (simp add: w'_def)
  have N: "next_wrapper w' = next_wrapper w" "next_obj w' = next_obj w"
    using w1(3,4) by (simp_all add: w'_def)
  have ok: "world_ok w'"
  proof (rule world_okI)
    fix h' ow' assume "wrappers w' h' = Some ow'"
    then show "h' < next_wrapper w'" "m_delCon ow' = m_obj ow'"
      using okD_fresh[OF w1(2)] okD_con[OF w1(2)] w1(3) by (auto simp: W N)
  next
    fix b' ob' assume "objects w' b' = Some ob'"
    then show "b' < next_obj w'" using okD_obj[OF assms(1)]
      by (auto simp: O N split: if_splits)
  next
    fix h' ow' b' assume a: "wrappers w' h' = Some ow'" "m_obj ow' = Some b'"
    then have "wrappers w1 h' = Some ow'" by (simp add: W)
    from okD_sub[OF w1(2) this a(2)] obtain ob1 where o1: "objects w1 b' = Some ob1" "h' \<in> set (onDelete ob1)"
      by blast
    have "b' \<noteq> b"
    proof
      assume "b' = b"
      with o1 w1(6) e show False by auto
    qed
    with o1 w1(5) show "\<exists>ob. objects w' b' = Some ob \<and> h' \<in> set (onDelete ob)"
      by (auto simp: O)
  next
    fix b' ob' h' assume a: "objects w' b' = Some ob'" "h' \<in> set (onDelete ob')"
    then have ne: "b' \<noteq> b" and "objects w1 b' = Some ob'" using w1(5) by (auto simp: O split: if_splits)
    from okD_slot[OF w1(2) this(2) a(2)]
    show "\<exists>ow. wrappers w' h' = Some ow \<and> m_obj ow = Some b'" by (simp add: W)
  qed
  from d ok N O W w1(7) show ?thesis by auto
qed



lemma extends_refl: "world_ok w \<Longrightarrow> extends w w"
  by (simp add: extends_def)

lemma extends_trans: "extends w w1 \<Longrightarrow> extends w1 w2 \<Longrightarrow> extends w w2"
  by (auto simp: extends_def)

lemma extends_new_Object: "world_ok w \<Longrightarrow> new_Object w ob = (b, w') \<Longrightarrow> extends w w'"
  using world_ok_new_Object[of w ob b w']
  by (auto simp: extends_def new_Object_def Let_def)

lemma extends_new_ObjectWrapper:
  "world_ok w \<Longrightarrow> new_ObjectWrapper w p = Inr (h, w') \<Longrightarrow> extends w w'"
  using world_ok_new_ObjectWrapper[of w p h w']
  by (auto simp: extends_def new_ObjectWrapper_Inr)

lemma world_ok_fields [simp]:
  "world_ok (w\<lparr>registry := r\<rparr>) = world_ok w"
  "world_ok (w\<lparr>bodies := bs\<rparr>) = world_ok w"
  "world_ok (w\<lparr>rng_draws := n\<rparr>) = world_ok w"
  by (simp_all add: world_ok_def)

lemma extends_fields:
  "world_ok w \<Longrightarrow> extends w (w\<lparr>registry := r\<rparr>)"
  "world_ok w \<Longrightarrow> extends w (w\<lparr>bodies := bs\<rparr>)"
  "world_ok w \<Longrightarrow> extends w (w\<lparr>rng_draws := n\<rparr>)"
  by (simp_all add: extends_def)

lemma world_ok_update_object:
  assumes "world_ok w" "objects w b = Some ob" "onDelete ob' = onDelete ob"
  shows "world_ok (w\<lparr>objects := (objects w)(b \<mapsto> ob')\<rparr>)"
proof (rule world_okI)
  fix h ow assume "wrappers (w\<lparr>objects := (objects w)(b \<mapsto> ob')\<rparr>) h = Some ow"
  then show "h < next_wrapper (w\<lparr>objects := (objects w)(b \<mapsto> ob')\<rparr>)" "m_delCon ow = m_obj ow"
    using okD_fresh[OF assms(1)] okD_con[OF assms(1)] by auto
next
  fix b' ob2 assume "objects (w\<lparr>objects := (objects w)(b \<mapsto> ob')\<rparr>) b' = Some ob2"
  then show "b' < next_obj (w\<lparr>objects := (objects w)(b \<mapsto> ob')\<rparr>)"
    using okD_obj[OF assms(1)] assms(2) by (auto split: if_splits)
next
  fix h ow b' assume "wrappers (w\<lparr>objects := (objects w)(b \<mapsto> ob')\<rparr>) h = Some ow" "m_obj ow = Some b'"
  then show "\<exists>ob. objects (w\<lparr>objects := (objects w)(b \<mapsto> ob')\<rparr>) b' = Some ob \<and> h \<in> set (onDelete ob)"
    using okD_sub[OF assms(1), of h ow b'] assms(2,3) by auto
next
  fix b' ob2 h assume "objects (w\<lparr>objects := (objects w)(b \<mapsto> ob')\<rparr>) b' = Some ob2" "h \<in> set (onDelete ob2)"
  then show "\<exists>ow. wrappers (w\<lparr>objects := (objects w)(b \<mapsto> ob')\<rparr>) h = Some ow \<and> m_obj ow = Some b'"
    using okD_slot[OF assms(1), of b' _ h] assms(2,3) by (auto split: if_splits)
qed

lemma extends_update_object:
  "world_ok w \<Longrightarrow> objects w b = Some ob \<Longrightarrow> onDelete ob' = onDelete ob \<Longrightarrow>
   extends w (w\<lparr>objects := (objects w)(b \<mapsto> ob')\<rparr>)"
  using world_ok_update_object[of w b ob ob'] by (simp add: extends_def)

lemma extends_SetMoney: "world_ok w \<Longrightarrow> SetMoney w h m = Inr w' \<Longrightarrow> extends w w'"
  by (auto simp: SetMoney_def Is_def deref_def extends_refl
      split: option.splits if_splits sum.splits intro!: extends_update_object)

lemma extends_AddAdvert:
  "world_ok w \<Longrightarrow> SpaceStationAddAdvert w h lm lr d = Inr w' \<Longrightarrow> extends w w'"
  by (auto simp: SpaceStationAddAdvert_def Is_def deref_def extends_refl
      split: option.splits if_splits sum.splits intro!: extends_update_object)

lemma extends_RemoveAdvert:
  "world_ok w \<Longrightarrow> SpaceStationRemoveAdvert w h lm lr = Inr w' \<Longrightarrow> extends w w'"
  by (auto simp: SpaceStationRemoveAdvert_def Is_def deref_def extends_refl
      split: option.splits if_splits sum.splits intro!: extends_update_object)

lemma extends_GetDockedWith:
  "world_ok w \<Longrightarrow> GetDockedWith w h = Inr (r, w') \<Longrightarrow> extends w w'"
  by (auto simp: GetDockedWith_def extends_refl
      split: option.splits if_splits sum.splits dest: extends_new_ObjectWrapper)

lemma extends_GetPlayer:
  "world_ok w \<Longrightarrow> GetPlayer w = Inr (r, w') \<Longrightarrow> extends w w'"
  by (auto simp: GetPlayer_def split: sum.splits dest: extends_new_ObjectWrapper)

lemma extends_UserDataSerialize:
  "world_ok w \<Longrightarrow> UserDataSerialize ex w v = Inr (r, w') \<Longrightarrow> extends w w'"
  by (cases v)
     (auto simp: UserDataSerialize_def LookupBody_id_def extends_refl extends_fields
      split: sum.splits if_splits prod.splits)

lemma extends_UserDataUnserialize:
  "world_ok w \<Longrightarrow> UserDataUnserialize ex w str = Inr (r, w') \<Longrightarrow> extends w w'"
  by (auto simp: UserDataUnserialize_def Let_def extends_refl
      split: sum.splits if_splits dest: extends_new_ObjectWrapper)

lemma extends_spawn_direct:
  assumes "world_ok w" "spawn_direct ex w ty = Inr (r, w')"
  shows "extends w w'"
proof -
  obtain ship w1 where n: "new_Object w (new_Ship ex ty) = (ship, w1)" by force
  from assms(2) n obtain h where h: "new_ObjectWrapper (AddBody w1 ship) (Some ship) = Inr (h, w')"
    by (auto simp: spawn_direct_def Let_def split: sum.splits)
  have e1: "extends w w1" using extends_new_Object[OF assms(1) n] .
  then have "world_ok w1" by (simp add: extends_def)
  then have e2: "extends w1 (AddBody w1 ship)" by (simp add: AddBody_def extends_fields)
  then have "world_ok (AddBody w1 ship)" by (simp add: extends_def)
  from extends_new_ObjectWrapper[OF this h] e1 e2 show ?thesis
    by (blast intro: extends_trans)
qed

lemma extends_spawn_in_cloud:
  assumes "world_ok w" "spawn_in_cloud ex w ty due = Inr (r, w')"
  shows "extends w w'"
proof -
  obtain ship w1 where n: "new_Object w (new_Ship ex ty) = (ship, w1)" by force
  obtain cloud w2 where c: "new_Object w1 (new_HyperspaceCloud ex ship due True) = (cloud, w2)" by force
  from assms(2) n c obtain h where h: "new_ObjectWrapper (AddBody w2 cloud) (Some ship) = Inr (h, w')"
    by (auto simp: spawn_in_cloud_def Let_def split: sum.splits)
  have e1: "extends w w1" using extends_new_Object[OF assms(1) n] .
  then have "world_ok w1" by (simp add: extends_def)
  from extends_new_Object[OF this c] have e2: "extends w1 w2" .
  then have "world_ok w2" by (simp add: extends_def)
  then have e3: "extends w2 (AddBody w2 cloud)" by (simp add: AddBody_def extends_fields)
  then have "world_ok (AddBody w2 cloud)" by (simp add: extends_def)
  from extends_new_ObjectWrapper[OF this h] e1 e2 e3 show ?thesis
    by (blast intro: extends_trans)
qed

lemma extends_SpawnShip:
  assumes "world_ok w" "SpawnShip ex w due ty = Inr (r, w')"
  shows "extends w w'"
proof -
  let ?w0 = "w\<lparr>rng_draws := rng_draws w + 3\<rparr>"
  have e0: "extends w ?w0" using assms(1) by (simp add: extends_fields)
  then have ok0: "world_ok ?w0" by (simp add: extends_def)
  from assms(2) have "w' = w \<or> w' = ?w0 \<or> spawn_direct ex ?w0 (c_str ty) = Inr (r, w')
      \<or> spawn_in_cloud ex ?w0 (c_str ty) due = Inr (r, w')"
    by (auto simp: SpawnShip_def Let_def split: option.splits if_splits)
  with e0 assms(1) extends_spawn_direct[OF ok0] extends_spawn_in_cloud[OF ok0]
  show ?thesis by (blast intro: extends_trans extends_refl)
qed


lemma entity_of_slot:
  assumes "world_ok w" "objects w b = Some ob"
  shows "h \<in> set (onDelete ob) \<longleftrightarrow> entity_of w h = Some b"
proof
  assume "h \<in> set (onDelete ob)"
  from okD_slot[OF assms this] show "entity_of w h = Some b"
    by (auto simp: entity_of_def)
next
  assume "entity_of w h = Some b"
  then obtain ow where "wrappers w h = Some ow" "m_obj ow = Some b"
    by (auto simp: entity_of_def split: option.splits)
  from okD_sub[OF assms(1) this] assms(2) show "h \<in> set (onDelete ob)" by auto
qed

lemma extends_effect:
  assumes "extends w w'"
  shows "next_wrapper w \<le> next_wrapper w'"
    and "h < next_wrapper w \<Longrightarrow> wrappers w' h = wrappers w h"
    and "h < next_wrapper w \<Longrightarrow> entity_of w' h = entity_of w h"
    and "world_ok w'"
  using assms by (auto simp: extends_def entity_of_def)

lemma step_cases:
  assumes "world_ok w" "step ex w a = Inr w'"
  shows "(\<exists>b ob. a = Sim_delete_Object b \<and> objects w b = Some ob \<and> delete_Object w b = Inr w')
       \<or> (\<exists>h ow. a = Lua_gc h \<and> wrappers w h = Some ow \<and> delete_ObjectWrapper w h = Inr w')
       \<or> ((\<forall>b. a \<noteq> Sim_delete_Object b) \<and> (\<forall>h. a \<noteq> Lua_gc h) \<and> extends w w')"
proof (cases a)
  case (Sim_new_Object ob)
  with assms extends_new_Object[OF assms(1), of ob "fst (new_Object w ob)" w'] show ?thesis
    by (auto simp: prod_eq_iff)
next
  case (Sim_delete_Object b)
  with assms show ?thesis by (auto simp: delete_Object_def split: option.splits)
next
  case (Lua_gc h)
  with assms show ?thesis by (auto simp: delete_ObjectWrapper_def split: option.splits)
next
  case Lua_GetPlayer
  with assms show ?thesis
    by (auto simp: state_of_def split: sum.splits dest: extends_GetPlayer)
next
  case (Lua_GetDockedWith h)
  with assms show ?thesis
    by (auto simp: state_of_def split: sum.splits dest: extends_GetDockedWith)
next
  case (Lua_SetMoney h m)
  with assms show ?thesis by (auto dest: extends_SetMoney)
next
  case (Lua_AddAdvert h lm lr d)
  with assms show ?thesis by (auto dest: extends_AddAdvert)
next
  case (Lua_RemoveAdvert h lm lr)
  with assms show ?thesis by (auto dest: extends_RemoveAdvert)
next
  case (Lua_UserDataSerialize v)
  with assms show ?thesis
    by (auto simp: state_of_def split: sum.splits dest: extends_UserDataSerialize)
next
  case (Lua_UserDataUnserialize str)
  with assms show ?thesis
    by (auto simp: state_of_def split: sum.splits dest: extends_UserDataUnserialize)
next
  case (Lua_SpawnShip due ty)
  with assms show ?thesis
    by (auto simp: state_of_def split: sum.splits dest: extends_SpawnShip)
qed

lemma step_effect:
  assumes "world_ok w" "step ex w a = Inr w'"
  shows "world_ok w'"
    and "next_wrapper w \<le> next_wrapper w'"
    and "h < next_wrapper w \<Longrightarrow> wrappers w h = None \<Longrightarrow> wrappers w' h = None"
    and "wrappers w' h \<noteq> None \<Longrightarrow> h < next_wrapper w \<Longrightarrow>
         entity_of w' h =
           (if \<exists>b. a = Sim_delete_Object b \<and> entity_of w h = Some b then None
            else entity_of w h)"
proof -
  from step_cases[OF assms]
  consider (del) b ob where "a = Sim_delete_Object b" "objects w b = Some ob" "delete_Object w b = Inr w'"
    | (gc) g ow where "a = Lua_gc g" "wrappers w g = Some ow" "delete_ObjectWrapper w g = Inr w'"
    | (ext) "\<forall>b. a \<noteq> Sim_delete_Object b" "extends w w'"
    by blast
  then have "world_ok w' \<and> next_wrapper w \<le> next_wrapper w'
     \<and> (h < next_wrapper w \<longrightarrow> wrappers w h = None \<longrightarrow> wrappers w' h = None)
     \<and> (wrappers w' h \<noteq> None \<longrightarrow> h < next_wrapper w \<longrightarrow>
         entity_of w' h =
           (if \<exists>b. a = Sim_delete_Object b \<and> entity_of w h = Some b then None
            else entity_of w h))"
  proof cases
    case del
    from delete_Object_spec[OF assms(1) del(2)] del(3)
    have s: "world_ok w'" "next_wrapper w' = next_wrapper w"
      "\<forall>h. wrappers w' h =
            (if h \<in> set (onDelete ob)
             then map_option (\<lambda>ow. ow\<lparr>m_obj := None, m_delCon := None\<rparr>) (wrappers w h)
             else wrappers w h)"
      by auto
    have r: "entity_of w' h = (if entity_of w h = Some b then None else entity_of w h)"
      using s(3) entity_of_slot[OF assms(1) del(2), of h]
      by (auto simp: entity_of_def split: option.splits)
    from s r del(1) show ?thesis by auto
  next
    case gc
    from delete_ObjectWrapper_spec[OF assms(1) gc(2)] gc(3)
    have s: "world_ok w'" "next_wrapper w' = next_wrapper w"
      "\<forall>h'. wrappers w' h' = (if h' = g then None else wrappers w h')"
      by auto
    from s gc(1) show ?thesis by (auto simp: entity_of_def)
  next
    case ext
    from extends_effect(1,4)[OF ext(2)] extends_effect(2,3)[OF ext(2), of h] ext(1)
    show ?thesis by auto
  qed
  then show "world_ok w'"
    and "next_wrapper w \<le> next_wrapper w'"
    and "h < next_wrapper w \<Longrightarrow> wrappers w h = None \<Longrightarrow> wrappers w' h = None"
    and "wrappers w' h \<noteq> None \<Longrightarrow> h < next_wrapper w \<Longrightarrow>
         entity_of w' h =
           (if \<exists>b. a = Sim_delete_Object b \<and> entity_of w h = Some b then None
            else entity_of w h)"
    by blast+
qed

lemma run_effect:
  "world_ok w \<Longrightarrow> run ex w as = Inr w' \<Longrightarrow>
   world_ok w' \<and> next_wrapper w \<le> next_wrapper w'
   \<and> (\<forall>h. h < next_wrapper w \<longrightarrow> wrappers w h = None \<longrightarrow> wrappers w' h = None)
   \<and> (\<forall>h. h < next_wrapper w \<longrightarrow> entity_of w h = None \<longrightarrow> entity_of w' h = None)"
proof (induction as arbitrary: w)
  case Nil
  then show ?case by simp
next
  case (Cons a as)
  from Cons.prems(2) obtain w1 where w1: "step ex w a = Inr w1" "run ex w1 as = Inr w'"
    by (auto split: sum.splits)
  note s = step_effect[OF Cons.prems(1) w1(1)]
  from Cons.IH[OF s(1) w1(2)]
  have ih: "world_ok w'" "next_wrapper w1 \<le> next_wrapper w'"
    "\<forall>h. h < next_wrapper w1 \<longrightarrow> wrappers w1 h = None \<longrightarrow> wrappers w' h = None"
    "\<forall>h. h < next_wrapper w1 \<longrightarrow> entity_of w1 h = None \<longrightarrow> entity_of w' h = None"
    by auto
  have a: "wrappers w' h = None" if "h < next_wrapper w" "wrappers w h = None" for h
    using s(2) s(3)[OF that] ih(3) that(1) by auto
  have b: "entity_of w' h = None" if h: "h < next_wrapper w" "entity_of w h = None" for h
  proof (cases "wrappers w1 h = None")
    case True
    with ih(3) h(1) s(2) show ?thesis by (auto simp: entity_of_def)
  next
    case False
    from s(4)[OF False h(1)] h(2) have "entity_of w1 h = None" by simp
    with ih(4) h(1) s(2) show ?thesis by auto
  qed
  from ih(1,2) s(2) a b show ?case by auto
qed

lemma Is_detached: "wrappers w h = Some ow \<Longrightarrow> m_obj ow = None \<Longrightarrow> Is w h t = Inr False"
  by (simp add: Is_def)

lemma Is_attached:
  "wrappers w h = Some ow \<Longrightarrow> m_obj ow = Some b \<Longrightarrow> objects w b = Some ob \<Longrightarrow>
   Is w h t = Inr (IsType ob t)"
  by (simp add: Is_def)

lemma deref_attached:
  "wrappers w h = Some ow \<Longrightarrow> m_obj ow = Some b \<Longrightarrow> objects w b = Some ob \<Longrightarrow>
   deref w h = Inr (b, ob)"
  by (simp add: deref_def)

section \<open>The life of a handle\<close>

lemma example_world_ok: "world_ok example_world"
  by (auto simp: world_ok_def example_world_def example_ship_def example_station_def split: if_splits)

lemma example_world1_ok: "world_ok example_world1"
  by (auto simp: world_ok_def example_world1_def example_world_def example_ship_def example_station_def split: if_splits)

lemma example_world2_ok: "world_ok example_world2"
  by (auto simp: world_ok_def example_world2_def example_world_def example_ship_def example_station_def split: if_splits)

lemma example_GetPlayer:
  "new_ObjectWrapper example_world (Some 0) = Inr (0, example_world1)"
  by (simp add: new_ObjectWrapper_def connect_def example_world_def example_world1_def Let_def
      example_ship_def fun_upd_twist)

lemma example_delete:
  "delete_Object example_world1 0 = Inr example_world2"
  by (simp add: delete_Object_def OnDelete_def disconnect_def example_world_def example_world1_def
      example_world2_def example_ship_def Let_def fun_upd_twist)

lemma entity_of_fresh:
  "world_ok w \<Longrightarrow> entity_of w (next_wrapper w) = None"
  using okD_fresh[of w "next_wrapper w"] by (cases "wrappers w (next_wrapper w)") (auto simp: entity_of_def)

lemma example_detached_run:
  "run example_ex example_world2 [Lua_GetDockedWith 0, Lua_SetMoney 0 5] = Inr example_world2"
proof -
  have w: "wrappers example_world2 0 = Some \<lparr>m_obj = None, m_delCon = None\<rparr>"
    by (simp add: example_world2_def)
  have i: "Is example_world2 0 t = Inr False" for t
    by (simp add: Is_def w)
  show ?thesis
    by (simp add: state_of_def GetDockedWith_def SetMoney_def i)
qed

text \<open>
  Claim C2. In every consistent state, for every live entity \<open>E\<close>: a handle constructed
  over \<open>E\<close> wraps \<open>E\<close> immediately after construction (and did not exist before), and
  \<open>Is\<close> answers for it as \<open>E\<close> does; the destruction of \<open>E\<close> succeeds and leaves every
  handle on \<open>E\<close> in existence and detached, with \<open>Is\<close> answering false;
  across any single step a handle on \<open>E\<close> that still exists is detached exactly when the
  step is the destruction of \<open>E\<close>, and wraps \<open>E\<close> otherwise; a handle that is detached (or
  freed) never wraps an entity again in any later state; and every state reached by a
  run is consistent again.
\<close>

theorem handle_lifecycle:
  assumes "world_ok w"
  shows "(\<forall>ob. objects w E = Some ob \<longrightarrow>
            (\<exists>h w1. new_ObjectWrapper w (Some E) = Inr (h, w1) \<and> world_ok w1
                \<and> entity_of w h = None \<and> entity_of w1 h = Some E
                \<and> (\<forall>t. Is w1 h t = Inr (IsType ob t))))
       \<and> (objects w E \<noteq> None \<longrightarrow>
            (\<exists>w'. step ex w (Sim_delete_Object E) = Inr w' \<and>
                (\<forall>h. entity_of w h = Some E \<longrightarrow>
                   wrappers w' h \<noteq> None \<and> entity_of w' h = None
                   \<and> (\<forall>t. Is w' h t = Inr False))))
       \<and> (\<forall>a w' h. step ex w a = Inr w' \<and> entity_of w h = Some E \<and> wrappers w' h \<noteq> None \<longrightarrow>
            entity_of w' h = (if a = Sim_delete_Object E then None else Some E))
       \<and> (\<forall>as w' h. run ex w as = Inr w' \<and> h < next_wrapper w \<and> entity_of w h = None \<longrightarrow>
            entity_of w' h = None)
       \<and> (\<forall>as w'. run ex w as = Inr w' \<longrightarrow> world_ok w')"
proof -
  have A: "\<exists>h w1. new_ObjectWrapper w (Some E) = Inr (h, w1) \<and> world_ok w1
                \<and> entity_of w h = None \<and> entity_of w1 h = Some E
                \<and> (\<forall>t. Is w1 h t = Inr (IsType ob t))"
    if ob: "objects w E = Some ob" for ob
  proof -
    define w1 where "w1 = w\<lparr>objects := (objects w)(E \<mapsto> ob\<lparr>onDelete := onDelete ob @ [next_wrapper w]\<rparr>),
              wrappers := (wrappers w)(next_wrapper w \<mapsto> \<lparr>m_obj = Some E, m_delCon = Some E\<rparr>),
              next_wrapper := Suc (next_wrapper w)\<rparr>"
    have n: "new_ObjectWrapper w (Some E) = Inr (next_wrapper w, w1)"
      unfolding new_ObjectWrapper_Inr using ob by (simp add: w1_def)
    have e: "entity_of w1 (next_wrapper w) = Some E" by (simp add: w1_def entity_of_def)
    have i: "Is w1 (next_wrapper w) t = Inr (IsType ob t)" for t
      by (simp add: Is_def w1_def IsType_def)
    from n world_ok_new_ObjectWrapper[OF assms n] entity_of_fresh[OF assms] e i
    show ?thesis by blast
  qed
  have B: "\<exists>w'. step ex w (Sim_delete_Object E) = Inr w' \<and>
                (\<forall>h. entity_of w h = Some E \<longrightarrow>
                   wrappers w' h \<noteq> None \<and> entity_of w' h = None
                   \<and> (\<forall>t. Is w' h t = Inr False))"
    if "objects w E \<noteq> None"
  proof -
    from that obtain ob where ob: "objects w E = Some ob" by auto
    from delete_Object_spec[OF assms ob] obtain w' where w': "delete_Object w E = Inr w'"
      "\<forall>h. wrappers w' h =
            (if h \<in> set (onDelete ob)
             then map_option (\<lambda>ow. ow\<lparr>m_obj := None, m_delCon := None\<rparr>) (wrappers w h)
             else wrappers w h)"
      by blast
    have "wrappers w' h \<noteq> None \<and> entity_of w' h = None \<and> (\<forall>t. Is w' h t = Inr False)"
      if "entity_of w h = Some E" for h
    proof -
      from that w'(2) entity_of_slot[OF assms ob, of h]
      obtain ow where "wrappers w' h = Some ow" "m_obj ow = None"
        by (auto simp: entity_of_def split: option.splits)
      then show ?thesis using Is_detached[of w' h ow] by (simp add: entity_of_def)
    qed
    with w'(1) show ?thesis by auto
  qed
  have C: "entity_of w' h = (if a = Sim_delete_Object E then None else Some E)"
    if a: "step ex w a = Inr w' \<and> entity_of w h = Some E \<and> wrappers w' h \<noteq> None" for a w' h
  proof -
    from a obtain ow where "wrappers w h = Some ow"
      by (auto simp: entity_of_def split: option.splits)
    from okD_fresh[OF assms this] have lt: "h < next_wrapper w" .
    from a step_effect(4)[OF assms _ _ lt, of ex a w'] show ?thesis by auto
  qed
  have D: "entity_of w' h = None"
    if "run ex w as = Inr w' \<and> h < next_wrapper w \<and> entity_of w h = None" for as w' h
    using that run_effect[OF assms, of ex as w'] by auto
  have E: "world_ok w'" if "run ex w as = Inr w'" for as w'
    using that run_effect[OF assms, of ex as w'] by auto
  from A B C D E show ?thesis by blast
qed

theorem handle_lifecycle_witness:
  "world_ok example_world \<and> objects example_world 0 = Some example_ship
   \<and> new_ObjectWrapper example_world (Some 0) = Inr (0, example_world1)
   \<and> entity_of example_world 0 = None \<and> entity_of example_world1 0 = Some 0
   \<and> Is example_world1 0 SHIP = Inr True
   \<and> step example_ex example_world1 (Sim_delete_Object 0) = Inr example_world2
   \<and> wrappers example_world2 0 \<noteq> None \<and> entity_of example_world2 0 = None
   \<and> Is example_world2 0 SHIP = Inr False
   \<and> run example_ex example_world2 [Lua_GetDockedWith 0, Lua_SetMoney 0 5] = Inr example_world2
   \<and> world_ok example_world2"
proof -
  note T0 = handle_lifecycle[OF example_world_ok, of 0 example_ex]
  note T1 = handle_lifecycle[OF example_world1_ok, of 0 example_ex]
  have o: "objects example_world 0 = Some example_ship" by (simp add: example_world_def)
  have o1: "objects example_world1 0 \<noteq> None" by (simp add: example_world1_def)
  have s: "step example_ex example_world1 (Sim_delete_Object 0) = Inr example_world2"
    by (simp add: example_delete)
  from conjunct1[OF T0, rule_format, OF o]
  obtain h w1 where hw: "new_ObjectWrapper example_world (Some 0) = Inr (h, w1)"
    "entity_of example_world h = None" "entity_of w1 h = Some 0"
    "\<forall>t. Is w1 h t = Inr (IsType example_ship t)"
    by blast
  from hw(1) example_GetPlayer have hw_eq: "h = 0" "w1 = example_world1" by simp_all
  from hw(2,3,4) hw_eq
  have r: "entity_of example_world 0 = None" "entity_of example_world1 0 = Some 0"
    "\<forall>t. Is example_world1 0 t = Inr (IsType example_ship t)"
    by simp_all
  from r(3) have i1: "Is example_world1 0 SHIP = Inr True"
    by (simp add: IsType_def example_ship_def)
  have w2: "wrappers example_world2 0 \<noteq> None" by (simp add: example_world2_def)
  from conjunct1[OF conjunct2[OF T1], rule_format, OF o1]
  obtain w' where d: "step example_ex example_world1 (Sim_delete_Object 0) = Inr w'"
    "\<forall>h. entity_of example_world1 h = Some 0 \<longrightarrow>
       wrappers w' h \<noteq> None \<and> entity_of w' h = None \<and> (\<forall>t. Is w' h t = Inr False)"
    by blast
  from d(1) s have w'_eq: "w' = example_world2" by simp
  from d(2)[rule_format, OF r(2)] w'_eq
  have r2: "entity_of example_world2 0 = None"
    and i2: "Is example_world2 0 SHIP = Inr False"
    by simp_all
  have "run example_ex example_world1 [Sim_delete_Object 0] = Inr example_world2"
    using s by simp
  with T1 have ok2: "world_ok example_world2" by blast
  from example_world_ok o example_GetPlayer r(1,2) i1 s w2 r2 i2 example_detached_run ok2
  show ?thesis by simp
qed

lemma example_world3_ok: "world_ok example_world3"
  by (auto simp: world_ok_def example_world3_def example_world_def example_ship_def
      example_station_def split: if_splits)

text \<open>
  Claim C8. In every consistent state, destroying a handle that exists, attached or
  detached, succeeds, frees the handle, removes no entity, leaves the state consistent,
  and leaves the handle in the slot list of no entity; in every state reached afterwards
  the handle is still freed and subscribed nowhere, and the destruction of any live
  entity delivers its callbacks without reaching the freed handle.
\<close>

theorem destructor_unsubscribes:
  assumes "world_ok w" "wrappers w h = Some ow"
  shows "\<exists>w'. delete_ObjectWrapper w h = Inr w' \<and> world_ok w' \<and> wrappers w' h = None
      \<and> (\<forall>b. (objects w' b = None) = (objects w b = None))
      \<and> (\<forall>b ob. objects w' b = Some ob \<longrightarrow> h \<notin> set (onDelete ob))
      \<and> (\<forall>as w''. run ex w' as = Inr w'' \<longrightarrow> wrappers w'' h = None
            \<and> (\<forall>b ob. objects w'' b = Some ob \<longrightarrow> h \<notin> set (onDelete ob)
                 \<and> (\<exists>w3. delete_Object w'' b = Inr w3 \<and> wrappers w3 h = None)))"
proof -
  from delete_ObjectWrapper_spec[OF assms] obtain w' where w':
    "delete_ObjectWrapper w h = Inr w'" "world_ok w'" "next_wrapper w' = next_wrapper w"
    "\<forall>h'. wrappers w' h' = (if h' = h then None else wrappers w h')"
    "\<forall>b ob. objects w' b = Some ob \<longrightarrow> h \<notin> set (onDelete ob)"
    "\<forall>b. (objects w' b = None) = (objects w b = None)"
    by blast
  have gone: "wrappers w' h = None" using w'(4) by simp
  have lt: "h < next_wrapper w'" using okD_fresh[OF assms] w'(3) by simp
  have later: "wrappers w'' h = None
            \<and> (\<forall>b ob. objects w'' b = Some ob \<longrightarrow> h \<notin> set (onDelete ob)
                 \<and> (\<exists>w3. delete_Object w'' b = Inr w3 \<and> wrappers w3 h = None))"
    if r: "run ex w' as = Inr w''" for as w''
  proof -
    from run_effect[OF w'(2) r] lt gone
    have ok: "world_ok w''" and g: "wrappers w'' h = None" by auto
    have "h \<notin> set (onDelete ob) \<and> (\<exists>w3. delete_Object w'' b = Inr w3 \<and> wrappers w3 h = None)"
      if o: "objects w'' b = Some ob" for b ob
    proof
      show "h \<notin> set (onDelete ob)"
      proof
        assume "h \<in> set (onDelete ob)"
        from okD_slot[OF ok o this] g show False by simp
      qed
      from delete_Object_spec[OF ok o] obtain w3 where w3: "delete_Object w'' b = Inr w3"
        "\<forall>h. wrappers w3 h =
            (if h \<in> set (onDelete ob)
             then map_option (\<lambda>ow. ow\<lparr>m_obj := None, m_delCon := None\<rparr>) (wrappers w'' h)
             else wrappers w'' h)"
        by blast
      from w3(2) g have "wrappers w3 h = None" by simp
      with w3(1) show "\<exists>w3. delete_Object w'' b = Inr w3 \<and> wrappers w3 h = None" by blast
    qed
    with g show ?thesis by blast
  qed
  from w'(1,2,5,6) gone later show ?thesis by blast
qed

theorem destructor_unsubscribes_witness:
  "world_ok example_world1 \<and> entity_of example_world1 0 = Some 0
   \<and> (\<exists>w'. delete_ObjectWrapper example_world1 0 = Inr w' \<and> wrappers w' 0 = None
         \<and> (\<exists>w3. delete_Object w' 0 = Inr w3 \<and> wrappers w3 0 = None))
   \<and> world_ok example_world2 \<and> wrappers example_world2 0 \<noteq> None
   \<and> entity_of example_world2 0 = None
   \<and> (\<exists>w'. delete_ObjectWrapper example_world2 0 = Inr w' \<and> wrappers w' 0 = None
         \<and> (\<exists>w3. delete_Object w' 1 = Inr w3 \<and> wrappers w3 0 = None))"
proof -
  have a1: "wrappers example_world1 0 = Some \<lparr>m_obj = Some 0, m_delCon = Some 0\<rparr>"
    by (simp add: example_world1_def)
  have a2: "wrappers example_world2 0 = Some \<lparr>m_obj = None, m_delCon = None\<rparr>"
    by (simp add: example_world2_def)
  have o1: "objects example_world1 0 \<noteq> None" by (simp add: example_world1_def)
  have o2: "objects example_world2 1 \<noteq> None" by (simp add: example_world2_def)
  from destructor_unsubscribes[OF example_world1_ok a1, of example_ex]
  obtain w' where w': "delete_ObjectWrapper example_world1 0 = Inr w'" "wrappers w' 0 = None"
    "\<forall>b. (objects w' b = None) = (objects example_world1 b = None)"
    "\<forall>as w''. run example_ex w' as = Inr w'' \<longrightarrow> wrappers w'' 0 = None
            \<and> (\<forall>b ob. objects w'' b = Some ob \<longrightarrow> 0 \<notin> set (onDelete ob)
                 \<and> (\<exists>w3. delete_Object w'' b = Inr w3 \<and> wrappers w3 0 = None))"
    by blast
  from w'(3) o1 obtain ob where "objects w' 0 = Some ob" by (cases "objects w' 0") auto
  with w'(4) have "\<exists>w3. delete_Object w' 0 = Inr w3 \<and> wrappers w3 0 = None"
    using run.simps(1)[of example_ex w'] by blast
  with w'(1,2) have p1: "\<exists>w'. delete_ObjectWrapper example_world1 0 = Inr w' \<and> wrappers w' 0 = None
         \<and> (\<exists>w3. delete_Object w' 0 = Inr w3 \<and> wrappers w3 0 = None)" by blast
  from destructor_unsubscribes[OF example_world2_ok a2, of example_ex]
  obtain v' where v': "delete_ObjectWrapper example_world2 0 = Inr v'" "wrappers v' 0 = None"
    "\<forall>b. (objects v' b = None) = (objects example_world2 b = None)"
    "\<forall>as w''. run example_ex v' as = Inr w'' \<longrightarrow> wrappers w'' 0 = None
            \<and> (\<forall>b ob. objects w'' b = Some ob \<longrightarrow> 0 \<notin> set (onDelete ob)
                 \<and> (\<exists>w3. delete_Object w'' b = Inr w3 \<and> wrappers w3 0 = None))"
    by blast
  from v'(3) o2 obtain ob' where "objects v' 1 = Some ob'" by (cases "objects v' 1") auto
  with v'(4) have "\<exists>w3. delete_Object v' 1 = Inr w3 \<and> wrappers w3 0 = None"
    using run.simps(1)[of example_ex v'] by blast
  with v'(1,2) have p2: "\<exists>w'. delete_ObjectWrapper example_world2 0 = Inr w' \<and> wrappers w' 0 = None
         \<and> (\<exists>w3. delete_Object w' 1 = Inr w3 \<and> wrappers w3 0 = None)" by blast
  have e1: "entity_of example_world1 0 = Some 0" by (simp add: entity_of_def a1)
  have e2: "entity_of example_world2 0 = None" by (simp add: entity_of_def a2)
  from example_world1_ok example_world2_ok e1 e2 a2 p1 p2 show ?thesis by simp
qed

section \<open>Operations on a detached handle\<close>

text \<open>
  Claim C4. For a handle that exists and is detached, every operation of the wrapper
  takes its neutral branch without a read of an entity: \<open>Is\<close> and \<open>IsBody\<close> answer
  false, the money query returns 0, the label query returns the empty string, the
  setters leave the state unchanged, and the queries returning a pointer return null.
  Likewise the money query returns 0 on an entity that is not a ship and the label query
  returns the empty string on an entity that is not a body. In a consistent state the
  queries of any existing handle return a value: no undefined read.
\<close>

theorem detached_policy:
  assumes "wrappers w h = Some ow"
  shows "(m_obj ow = None \<longrightarrow>
            Is w h t = Inr False \<and> IsBody w h = Inr False
          \<and> GetMoney w h = Inr 0 \<and> GetLabel w h = Inr []
          \<and> SetMoney w h m = Inr w
          \<and> SpaceStationAddAdvert w h luaMod luaRef description = Inr w
          \<and> SpaceStationRemoveAdvert w h luaMod luaRef = Inr w
          \<and> GetSBody GetPathOf w h = Inr None
          \<and> GetDockedWith w h = Inr (None, w))
       \<and> (\<forall>b ob. m_obj ow = Some b \<and> objects w b = Some ob \<longrightarrow>
            (\<not> IsType ob SHIP \<longrightarrow> GetMoney w h = Inr 0)
          \<and> (\<not> IsType ob BODY \<longrightarrow> GetLabel w h = Inr []))
       \<and> (world_ok w \<longrightarrow>
            (\<exists>r. Is w h t = Inr r) \<and> (\<exists>x. GetMoney w h = Inr x) \<and> (\<exists>s. GetLabel w h = Inr s))"
proof (intro conjI impI allI)
  assume d: "m_obj ow = None"
  note i = Is_detached[OF assms d]
  show "Is w h t = Inr False" by (rule i)
  show "IsBody w h = Inr False" by (simp add: IsBody_def i)
  show "GetMoney w h = Inr 0" by (simp add: GetMoney_def i)
  show "GetLabel w h = Inr []" by (simp add: GetLabel_def i)
  show "SetMoney w h m = Inr w" by (simp add: SetMoney_def i)
  show "SpaceStationAddAdvert w h luaMod luaRef description = Inr w"
    by (simp add: SpaceStationAddAdvert_def i)
  show "SpaceStationRemoveAdvert w h luaMod luaRef = Inr w"
    by (simp add: SpaceStationRemoveAdvert_def i)
  show "GetSBody GetPathOf w h = Inr None" by (simp add: GetSBody_def i)
  show "GetDockedWith w h = Inr (None, w)" by (simp add: GetDockedWith_def i)
next
  fix b ob
  assume a: "m_obj ow = Some b \<and> objects w b = Some ob" and n: "\<not> IsType ob SHIP"
  from a have "Is w h SHIP = Inr (IsType ob SHIP)" using Is_attached[OF assms] by blast
  with n show "GetMoney w h = Inr 0" by (simp add: GetMoney_def)
next
  fix b ob
  assume a: "m_obj ow = Some b \<and> objects w b = Some ob" and n: "\<not> IsType ob BODY"
  from a have "Is w h BODY = Inr (IsType ob BODY)" using Is_attached[OF assms] by blast
  with n show "GetLabel w h = Inr []" by (simp add: GetLabel_def)
next
  assume ok: "world_ok w"
  have "(\<exists>r. Is w h t = Inr r) \<and> (\<exists>x. GetMoney w h = Inr x) \<and> (\<exists>s. GetLabel w h = Inr s)"
  proof (cases "m_obj ow")
    case None
    note i = Is_detached[OF assms None]
    show ?thesis by (auto simp: GetMoney_def GetLabel_def i)
  next
    case (Some b)
    from okD_sub[OF ok assms Some] obtain ob where ob: "objects w b = Some ob" by blast
    note i = Is_attached[OF assms Some ob]
    note d = deref_attached[OF assms Some ob]
    have "GetMoney w h = Inr (if IsType ob SHIP then 0.01 * real_of_int (money ob) else 0)"
      by (simp add: GetMoney_def i d)
    moreover have "GetLabel w h = Inr (if IsType ob BODY then c_str (label ob) else [])"
      by (simp add: GetLabel_def i d)
    ultimately show ?thesis using i by blast
  qed
  then show "\<exists>r. Is w h t = Inr r" "\<exists>x. GetMoney w h = Inr x" "\<exists>s. GetLabel w h = Inr s"
    by blast+
qed

theorem detached_policy_witness:
  "wrappers example_world2 0 = Some \<lparr>m_obj = None, m_delCon = None\<rparr>
   \<and> GetMoney example_world2 0 = Inr 0 \<and> GetLabel example_world2 0 = Inr []
   \<and> Is example_world2 0 BODY = Inr False
   \<and> wrappers example_world3 0 = Some \<lparr>m_obj = Some 1, m_delCon = Some 1\<rparr>
   \<and> objects example_world3 1 = Some (example_station\<lparr>onDelete := [0]\<rparr>)
   \<and> \<not> IsType (example_station\<lparr>onDelete := [0]\<rparr>) SHIP
   \<and> GetMoney example_world3 0 = Inr 0
   \<and> world_ok example_world3
   \<and> GetLabel example_world3 0 = Inr ''Station''"
proof -
  have a2: "wrappers example_world2 0 = Some \<lparr>m_obj = None, m_delCon = None\<rparr>"
    by (simp add: example_world2_def)
  have a3: "wrappers example_world3 0 = Some \<lparr>m_obj = Some 1, m_delCon = Some 1\<rparr>"
    by (simp add: example_world3_def)
  have o3: "objects example_world3 1 = Some (example_station\<lparr>onDelete := [0]\<rparr>)"
    by (simp add: example_world3_def)
  have n3: "\<not> IsType (example_station\<lparr>onDelete := [0]\<rparr>) SHIP"
    by (simp add: IsType_def example_station_def)
  have m3: "m_obj \<lparr>m_obj = Some 1, m_delCon = Some 1\<rparr> = Some 1" by simp
  have l3: "GetLabel example_world3 0 = Inr ''Station''"
    by (simp add: GetLabel_def Is_attached[OF a3 m3 o3] deref_attached[OF a3 m3 o3]
        IsType_def example_station_def c_str_def)
  from detached_policy[OF a2, of BODY 0 "[]" 0 "[]" "\<lambda>n. n"] have d2: "GetMoney example_world2 0 = Inr 0"
    "GetLabel example_world2 0 = Inr []" "Is example_world2 0 BODY = Inr False"
    by simp_all
  from detached_policy[OF a3, of BODY 0 "[]" 0 "[]" "\<lambda>n. n"] o3 n3 have d3: "GetMoney example_world3 0 = Inr 0"
    by simp
  from a2 a3 o3 n3 l3 d2 d3 example_world3_ok show ?thesis by simp
qed

section \<open>Properties of the text conversions\<close>

lemma of_char_digit_char: "d < 10 \<Longrightarrow> (of_char (digit_char d) :: nat) = 48 + d"
  by (simp add: digit_char_def)

lemma isdigit_digit_char: "d < 10 \<Longrightarrow> isdigit (digit_char d)"
  by (simp add: isdigit_def of_char_digit_char)

lemma decimal_small: "n < 10 \<Longrightarrow> decimal n = [digit_char n]"
  by (subst decimal.simps) simp

lemma decimal_large:
  "\<not> n < 10 \<Longrightarrow> decimal n = decimal (n div 10) @ [digit_char (n mod 10)]"
  by (subst decimal.simps) simp

lemma decimal_digits: "c \<in> set (decimal n) \<Longrightarrow> isdigit c"
proof (induction n arbitrary: c rule: decimal.induct)
  case (1 n)
  show ?case
  proof (cases "n < 10")
    case True
    with 1(2) show ?thesis by (simp add: decimal_small isdigit_digit_char)
  next
    case False
    with 1 show ?thesis by (auto simp: decimal_large isdigit_digit_char)
  qed
qed

lemma decimal_not_Nil: "decimal n \<noteq> []"
  by (cases "n < 10") (simp_all add: decimal_small decimal_large)

lemma atoi_digits_digit_char:
  "d < 10 \<Longrightarrow> atoi_digits acc (digit_char d # r) = atoi_digits (acc * 10 + int d) r"
  using isdigit_digit_char[of d] of_char_digit_char[of d] by simp

lemma atoi_digits_decimal:
  "atoi_digits acc (decimal n @ r) = atoi_digits (acc * 10 ^ length (decimal n) + int n) r"
proof (induction n arbitrary: acc r rule: decimal.induct)
  case (1 n)
  show ?case
  proof (cases "n < 10")
    case True
    then show ?thesis
      using atoi_digits_digit_char[of n acc r] by (simp add: decimal_small del: atoi_digits.simps)
  next
    case False
    have m: "n mod 10 < 10" by simp
    have "atoi_digits acc (decimal n @ r)
        = atoi_digits acc (decimal (n div 10) @ (digit_char (n mod 10) # r))"
      using False by (simp add: decimal_large)
    also have "\<dots> = atoi_digits (acc * 10 ^ length (decimal (n div 10)) + int (n div 10))
                       (digit_char (n mod 10) # r)"
      using 1[OF False] by simp
    also have "\<dots> = atoi_digits ((acc * 10 ^ length (decimal (n div 10)) + int (n div 10)) * 10
                       + int (n mod 10)) r"
      by (rule atoi_digits_digit_char[OF m])
    also have "(acc * 10 ^ length (decimal (n div 10)) + int (n div 10)) * 10 + int (n mod 10)
        = acc * 10 ^ length (decimal n) + int n"
    proof -
      have "int (n div 10) * 10 + int (n mod 10) = int n"
        by (metis mult.commute of_nat_add of_nat_mult of_nat_numeral div_mult_mod_eq mult.commute)
      then show ?thesis using False by (simp add: decimal_large algebra_simps)
    qed
    finally show ?thesis .
  qed
qed

lemma isdigit_plain:
  "isdigit c \<Longrightarrow> \<not> isspace c \<and> c \<noteq> CHR ''-'' \<and> c \<noteq> CHR ''+'' \<and> c \<noteq> CHR 0x00 \<and> c \<noteq> newline"
  by (auto simp: isdigit_def isspace_def newline_def)

lemma not_isdigit_newline: "\<not> isdigit newline"
  by (simp add: isdigit_def newline_def)

lemma atoi_decimal:
  assumes "n < 2 ^ 31"
  shows "atoi (decimal n @ newline # r) = Inr (int n)"
proof -
  obtain c cs where d: "decimal n = c # cs" using decimal_not_Nil[of n] by (cases "decimal n") auto
  then have "isdigit c" using decimal_digits[of c n] by simp
  note p = isdigit_plain[OF this]
  have v: "atoi_digits 0 (decimal n @ newline # r) = int n"
    by (simp add: atoi_digits_decimal not_isdigit_newline)
  have "atoi ((c # cs) @ newline # r) = Inr (int n)"
    using p v assms unfolding atoi_def d by (simp add: Let_def)
  then show ?thesis by (simp add: d)
qed

lemma length_decimal: "n < 10 ^ k \<Longrightarrow> 0 < k \<Longrightarrow> length (decimal n) \<le> k"
proof (induction n arbitrary: k rule: decimal.induct)
  case (1 n)
  show ?case
  proof (cases "n < 10")
    case True
    with 1(3) show ?thesis by (simp add: decimal_small)
  next
    case False
    from 1(3) obtain j where k: "k = Suc j" by (cases k) auto
    have "j \<noteq> 0"
    proof
      assume "j = 0"
      with k 1(2) False show False by simp
    qed
    moreover from 1(2) k have "n div 10 < 10 ^ j" by (simp add: less_mult_imp_div_less mult.commute)
    ultimately have "length (decimal (n div 10)) \<le> j" using 1(1)[OF False, of j] by simp
    with False k show ?thesis by (simp add: decimal_large)
  qed
qed

lemma length_decimal_int: "n < 2 ^ 31 \<Longrightarrow> length (decimal n) \<le> 10"
  by (rule length_decimal) simp_all

lemma c_str_decimal: "c_str (decimal n @ newline # r) = decimal n @ newline # c_str r"
proof -
  have "\<forall>c \<in> set (decimal n). c \<noteq> CHR 0x00" using decimal_digits isdigit_plain by blast
  then show ?thesis by (simp add: c_str_def takeWhile_append2 newline_def)
qed

lemma digit_char_values:
  "digit_char 0 = CHR ''0''" "digit_char 1 = CHR ''1''" "digit_char 2 = CHR ''2''"
  "digit_char 3 = CHR ''3''" "digit_char 4 = CHR ''4''" "digit_char 5 = CHR ''5''"
  "digit_char 6 = CHR ''6''" "digit_char 7 = CHR ''7''" "digit_char 8 = CHR ''8''"
  "digit_char 9 = CHR ''9''" "digit_char (Suc 0) = CHR ''1''"
  by code_simp+

lemma decimal_0: "decimal 0 = ''0''"
  by (simp add: decimal_small digit_char_values)

section \<open>Encoding and decoding\<close>

lemma length_takeWhile_found:
  "b \<in> set xs \<Longrightarrow> length (takeWhile (\<lambda>x. x \<noteq> b) xs) < length xs"
  by (induction xs) auto

lemma takeWhile_not_found:
  "b \<notin> set xs \<Longrightarrow> takeWhile (\<lambda>x. x \<noteq> b) xs = xs"
  by (induction xs) auto

lemma LookupBody_id_spec:
  assumes "LookupBody_id w b = (i, w')"
  shows "0 \<le> i" "i \<le> int (length (registry w))"
    "nat i < length (registry w')" "registry w' ! nat i = b"
    "objects w' = objects w" "wrappers w' = wrappers w" "next_wrapper w' = next_wrapper w"
    "next_obj w' = next_obj w"
    "registry w' = (if b \<in> set (registry w) then registry w else registry w @ [b])"
proof -
  let ?t = "takeWhile (\<lambda>x. x \<noteq> b) (registry w)"
  from assms have i: "i = int (length ?t)"
    and w': "w' = (if b \<in> set (registry w) then w else w\<lparr>registry := registry w @ [b]\<rparr>)"
    by (auto simp: LookupBody_id_def)
  show "0 \<le> i" by (simp add: i)
  show "i \<le> int (length (registry w))" by (simp add: i length_takeWhile_le)
  show "objects w' = objects w" "wrappers w' = wrappers w" "next_wrapper w' = next_wrapper w"
    "next_obj w' = next_obj w"
    "registry w' = (if b \<in> set (registry w) then registry w else registry w @ [b])"
    by (simp_all add: w')
  show "nat i < length (registry w')" "registry w' ! nat i = b"
  proof -
    show "nat i < length (registry w')"
    proof (cases "b \<in> set (registry w)")
      case True
      then have "length ?t < length (registry w)"
        by (rule length_takeWhile_found)
      with True show ?thesis by (simp add: i w')
    next
      case False
      then show ?thesis using length_takeWhile_le[of "\<lambda>x. x \<noteq> b" "registry w"]
        by (simp add: i w')
    qed
    show "registry w' ! nat i = b"
    proof (cases "b \<in> set (registry w)")
      case True
      then have l: "length ?t < length (registry w)"
        by (rule length_takeWhile_found)
      from nth_length_takeWhile[OF l] True show ?thesis by (simp add: i w')
    next
      case False
      then show ?thesis by (simp add: i w' takeWhile_not_found)
    qed
  qed
qed

lemma take_tag_ObjectWrapper:
  "take 14 (''ObjectWrapper'' @ [newline] @ x) = ''ObjectWrapper'' @ [newline]"
  "drop 14 (''ObjectWrapper'' @ [newline] @ x) = x"
  by simp_all

lemma take_tag_SBodyPath:
  "take 14 (''SBodyPath'' @ [newline] @ x) \<noteq> ''ObjectWrapper'' @ [newline]"
  "take 10 (''SBodyPath'' @ [newline] @ x) = ''SBodyPath'' @ [newline]"
  "drop 10 (''SBodyPath'' @ [newline] @ x) = x"
  by simp_all

lemma take_tag_SysLoc:
  "take 14 (''SysLoc'' @ [newline] @ x) \<noteq> ''ObjectWrapper'' @ [newline]"
  "take 10 (''SysLoc'' @ [newline] @ x) \<noteq> ''SBodyPath'' @ [newline]"
  "take 7 (''SysLoc'' @ [newline] @ x) = ''SysLoc'' @ [newline]"
  "drop 7 (''SysLoc'' @ [newline] @ x) = x"
  by simp_all

lemma UserDataSerialize_handle:
  assumes "wrappers w h = Some ow" "m_obj ow = Some b" "objects w b = Some ob" "IsType ob BODY"
    and "length (registry w) < 2 ^ 31"
  shows "UserDataSerialize ex w (UD_ObjectWrapper h) =
      Inr ([LString (''ObjectWrapper'' @ [newline]
              @ decimal (nat (fst (LookupBody_id w b))) @ [newline])],
           snd (LookupBody_id w b))"
proof -
  obtain n w1 where L: "LookupBody_id w b = (n, w1)" by force
  note sp = LookupBody_id_spec[OF L]
  from sp(1,2) assms(5) have lt: "nat n < 2 ^ 31" by simp
  have len: "length (decimal (nat n)) \<le> 10" using length_decimal_int[OF lt] .
  have p: "printf_d n = decimal (nat n)" using sp(1) by (simp add: printf_d_def)
  have t: "take 127 (''ObjectWrapper'' @ [newline] @ decimal (nat n) @ [newline])
      = ''ObjectWrapper'' @ [newline] @ decimal (nat n) @ [newline]"
    using len by simp
  have i: "IsBody w h = Inr True" using assms(1-4) by (simp add: IsBody_def Is_def)
  have d: "deref w h = Inr (b, ob)" using assms(1-3) by (simp add: deref_def)
  show ?thesis
    using t by (simp add: UserDataSerialize_def i d L p)
qed

lemma UserDataUnserialize_handle:
  assumes "n < 2 ^ 31" "LookupBody_ptr w n = Some b" "objects w b = Some ob"
  shows "UserDataUnserialize ex w (''ObjectWrapper'' @ [newline] @ decimal n @ [newline]) =
      Inr ([UD_ObjectWrapper (next_wrapper w)],
           w\<lparr>objects := (objects w)(b \<mapsto> ob\<lparr>onDelete := onDelete ob @ [next_wrapper w]\<rparr>),
             wrappers := (wrappers w)(next_wrapper w \<mapsto> \<lparr>m_obj = Some b, m_delCon = Some b\<rparr>),
             next_wrapper := Suc (next_wrapper w)\<rparr>)"
proof -
  have c: "c_str (decimal n @ [newline]) = decimal n @ [newline]"
    using c_str_decimal[of n "[]"] by (simp add: c_str_def)
  have a: "atoi (decimal n @ [newline]) = Inr (int n)"
    using atoi_decimal[OF assms(1), of "[]"] by simp
  have z: "to_size_t (int n) = n"
    using assms(1) by (simp add: to_size_t_def)
  have nw: "new_ObjectWrapper w (Some b) = Inr (next_wrapper w,
           w\<lparr>objects := (objects w)(b \<mapsto> ob\<lparr>onDelete := onDelete ob @ [next_wrapper w]\<rparr>),
             wrappers := (wrappers w)(next_wrapper w \<mapsto> \<lparr>m_obj = Some b, m_delCon = Some b\<rparr>),
             next_wrapper := Suc (next_wrapper w)\<rparr>)"
    unfolding new_ObjectWrapper_Inr using assms(3) by simp
  show ?thesis
    unfolding UserDataUnserialize_def take_tag_ObjectWrapper
    by (simp add: c a z assms(2) nw)
qed

lemma atoi_digits_decimal_all: "atoi_digits 0 (decimal n) = int n"
  using atoi_digits_decimal[of 0 n "[]"] by simp

lemma decimal_hd: "\<exists>c cs. decimal n = c # cs \<and> isdigit c"
  using decimal_not_Nil[of n] decimal_digits[of _ n] by (cases "decimal n") auto

lemma read_field_printf_d: "read_field (printf_d i) = i"
proof (cases "i < 0")
  case True
  then show ?thesis by (simp add: read_field_def printf_d_def atoi_digits_decimal_all)
next
  case False
  obtain c cs where d: "decimal (nat i) = c # cs" "isdigit c" using decimal_hd by blast
  from isdigit_plain[OF d(2)] have "c \<noteq> CHR ''-''" by simp
  moreover have "atoi_digits 0 (c # cs) = i"
    using atoi_digits_decimal_all[of "nat i"] False by (simp add: d(1))
  ultimately show ?thesis using False by (simp add: read_field_def printf_d_def d(1))
qed

lemma printf_d_no_newline: "newline \<notin> set (printf_d i)"
proof -
  have "\<forall>c \<in> set (decimal n). c \<noteq> newline" for n
    using decimal_digits isdigit_plain by blast
  then show ?thesis by (auto simp: printf_d_def newline_def)
qed

lemma split_fields_Nil: "split_fields [] = []"
  by (subst split_fields.simps) simp

lemma split_fields_write_field:
  "split_fields (write_field i @ rest) = printf_d i # split_fields rest"
proof -
  have n: "\<forall>c \<in> set (printf_d i). c \<noteq> newline" using printf_d_no_newline[of i] by auto
  have t: "takeWhile (\<lambda>c. c \<noteq> newline) (printf_d i @ newline # rest) = printf_d i"
    using n by (simp add: takeWhile_append2)
  have d: "dropWhile (\<lambda>c. c \<noteq> newline) (printf_d i @ newline # rest) = newline # rest"
    using n by (simp add: dropWhile_append2)
  show ?thesis
    by (subst split_fields.simps) (simp add: write_field_def t d)
qed

lemma SBodyPath_round_trip: "spec_SBodyPath_Unserialize (spec_SBodyPath_Serialize p) = p"
proof -
  have "split_fields (concat (map write_field p)) = map printf_d p"
    by (induction p) (simp_all add: split_fields_Nil split_fields_write_field)
  then show ?thesis
    by (simp add: spec_SBodyPath_Unserialize_def spec_SBodyPath_Serialize_def
        read_field_printf_d comp_def)
qed

lemma SysLoc_round_trip: "spec_SysLoc_Unserialize (spec_SysLoc_Serialize l) = l"
proof -
  have "split_fields (spec_SysLoc_Serialize l)
      = [printf_d (sectorX l), printf_d (sectorY l), printf_d (systemIdx l)]"
    using split_fields_write_field[of "systemIdx l" "[]"]
    by (simp add: spec_SysLoc_Serialize_def split_fields_write_field split_fields_Nil)
  then show ?thesis
    by (simp add: spec_SysLoc_Unserialize_def read_field_printf_d)
qed


lemma spec_codec_fields [simp]:
  "SBodyPath_Serialize (spec_codec ex) = spec_SBodyPath_Serialize"
  "SBodyPath_Unserialize (spec_codec ex) = spec_SBodyPath_Unserialize"
  "SysLoc_Serialize (spec_codec ex) = spec_SysLoc_Serialize"
  "SysLoc_Unserialize (spec_codec ex) = spec_SysLoc_Unserialize"
  by (simp_all add: spec_codec_def)

lemma round_trip_handle:
  assumes "world_ok w"
    and a: "wrappers w h = Some ow \<and> m_obj ow = Some b \<and> objects w b = Some ob
            \<and> IsType ob BODY \<and> length (registry w) < 2 ^ 31"
  shows "\<exists>s w1 h' w2.
              UserDataSerialize ex w (UD_ObjectWrapper h) = Inr ([LString s], w1)
            \<and> UserDataUnserialize ex w1 s = Inr ([UD_ObjectWrapper h'], w2)
            \<and> h' \<noteq> h \<and> entity_of w2 h' = Some b \<and> entity_of w2 h = Some b \<and> world_ok w2"
proof -
  obtain n w1 where L: "LookupBody_id w b = (n, w1)" by force
  note sp = LookupBody_id_spec[OF L]
  from sp(1,2) have "nat n \<le> length (registry w)" by linarith
  with a have lt: "nat n < 2 ^ 31" by linarith
  let ?s = "''ObjectWrapper'' @ [newline] @ decimal (nat n) @ [newline]"
  from a have ser: "UserDataSerialize ex w (UD_ObjectWrapper h) = Inr ([LString ?s], w1)"
    using UserDataSerialize_handle[of w h ow b ob ex] L by simp
  have look: "LookupBody_ptr w1 (nat n) = Some b"
    using sp(3,4) by (simp add: LookupBody_ptr_def)
  have ob1: "objects w1 b = Some ob" using a sp(5) by simp
  let ?w2 = "w1\<lparr>objects := (objects w1)(b \<mapsto> ob\<lparr>onDelete := onDelete ob @ [next_wrapper w1]\<rparr>),
             wrappers := (wrappers w1)(next_wrapper w1 \<mapsto> \<lparr>m_obj = Some b, m_delCon = Some b\<rparr>),
             next_wrapper := Suc (next_wrapper w1)\<rparr>"
  have un: "UserDataUnserialize ex w1 ?s = Inr ([UD_ObjectWrapper (next_wrapper w1)], ?w2)"
    by (rule UserDataUnserialize_handle[OF lt look ob1])
  have ok1: "world_ok w1" using assms(1) sp(5-8) by (simp add: world_ok_def)
  from a okD_fresh[OF assms(1), of h ow] sp(7) have ne: "next_wrapper w1 \<noteq> h" by auto
  have e1: "entity_of ?w2 (next_wrapper w1) = Some b" by (simp add: entity_of_def)
  have e2: "entity_of ?w2 h = Some b" using a ne sp(6) by (simp add: entity_of_def)
  have "new_ObjectWrapper w1 (Some b) = Inr (next_wrapper w1, ?w2)"
    unfolding new_ObjectWrapper_Inr using ob1 by simp
  from world_ok_new_ObjectWrapper[OF ok1 this] have ok2: "world_ok ?w2" .
  from ser un ne e1 e2 ok2 show ?thesis by blast
qed

lemma round_trip_path:
  "UserDataSerialize (spec_codec ex) w (UD_SBodyPath p)
     = Inr ([LString (''SBodyPath'' @ [newline] @ spec_SBodyPath_Serialize p)], w)
   \<and> UserDataUnserialize (spec_codec ex) w (''SBodyPath'' @ [newline] @ spec_SBodyPath_Serialize p)
     = Inr ([UD_SBodyPath p], w)"
proof
  show "UserDataSerialize (spec_codec ex) w (UD_SBodyPath p)
     = Inr ([LString (''SBodyPath'' @ [newline] @ spec_SBodyPath_Serialize p)], w)"
    by (simp add: UserDataSerialize_def)
  show "UserDataUnserialize (spec_codec ex) w (''SBodyPath'' @ [newline] @ spec_SBodyPath_Serialize p)
     = Inr ([UD_SBodyPath p], w)"
    unfolding UserDataUnserialize_def
    using take_tag_SBodyPath[of "spec_SBodyPath_Serialize p"] SBodyPath_round_trip[of p]
    by simp
qed

lemma round_trip_sysloc:
  "UserDataSerialize (spec_codec ex) w (UD_SysLoc l)
     = Inr ([LString (''SysLoc'' @ [newline] @ spec_SysLoc_Serialize l)], w)
   \<and> UserDataUnserialize (spec_codec ex) w (''SysLoc'' @ [newline] @ spec_SysLoc_Serialize l)
     = Inr ([UD_SysLoc l], w)"
proof
  show "UserDataSerialize (spec_codec ex) w (UD_SysLoc l)
     = Inr ([LString (''SysLoc'' @ [newline] @ spec_SysLoc_Serialize l)], w)"
    by (simp add: UserDataSerialize_def)
  show "UserDataUnserialize (spec_codec ex) w (''SysLoc'' @ [newline] @ spec_SysLoc_Serialize l)
     = Inr ([UD_SysLoc l], w)"
    unfolding UserDataUnserialize_def
    using take_tag_SysLoc[of "spec_SysLoc_Serialize l"] SysLoc_round_trip[of l]
    by simp
qed

lemma example_payloads:
  "spec_SBodyPath_Serialize example_path = ''0'' @ [newline] @ ''3'' @ [newline] @ ''1'' @ [newline]"
  "spec_SysLoc_Serialize example_sysloc = ''3'' @ [newline] @ ''-2'' @ [newline] @ ''7'' @ [newline]"
  by (simp_all add: spec_SBodyPath_Serialize_def spec_SysLoc_Serialize_def write_field_def
      example_path_def example_sysloc_def printf_d_def decimal.simps digit_char_values)

text \<open>
  Claim C1. In a consistent state: encoding a handle attached to a live body (with fewer
  than \<open>2^31\<close> ids issued) and decoding the resulting string yields a new handle, distinct
  from the first, wrapping the same entity, while the first still wraps it; encoding
  any body path or any system location and decoding the resulting string yields a value
  with the same fields and leaves the state unchanged. The registry of ids and the field
  codecs of the two hierarchical kinds are those modelled from the spec.
\<close>

theorem round_trip:
  assumes "world_ok w"
  shows "(\<forall>h ow b ob. wrappers w h = Some ow \<and> m_obj ow = Some b \<and> objects w b = Some ob
            \<and> IsType ob BODY \<and> length (registry w) < 2 ^ 31 \<longrightarrow>
          (\<exists>s w1 h' w2.
              UserDataSerialize (spec_codec ex) w (UD_ObjectWrapper h) = Inr ([LString s], w1)
            \<and> UserDataUnserialize (spec_codec ex) w1 s = Inr ([UD_ObjectWrapper h'], w2)
            \<and> h' \<noteq> h \<and> entity_of w2 h' = Some b \<and> entity_of w2 h = Some b \<and> world_ok w2))
       \<and> (\<forall>p. \<exists>s. UserDataSerialize (spec_codec ex) w (UD_SBodyPath p) = Inr ([LString s], w)
            \<and> UserDataUnserialize (spec_codec ex) w s = Inr ([UD_SBodyPath p], w))
       \<and> (\<forall>l. \<exists>s. UserDataSerialize (spec_codec ex) w (UD_SysLoc l) = Inr ([LString s], w)
            \<and> UserDataUnserialize (spec_codec ex) w s = Inr ([UD_SysLoc l], w))"
proof -
  have A: "\<forall>h ow b ob. wrappers w h = Some ow \<and> m_obj ow = Some b \<and> objects w b = Some ob
            \<and> IsType ob BODY \<and> length (registry w) < 2 ^ 31 \<longrightarrow>
          (\<exists>s w1 h' w2.
              UserDataSerialize (spec_codec ex) w (UD_ObjectWrapper h) = Inr ([LString s], w1)
            \<and> UserDataUnserialize (spec_codec ex) w1 s = Inr ([UD_ObjectWrapper h'], w2)
            \<and> h' \<noteq> h \<and> entity_of w2 h' = Some b \<and> entity_of w2 h = Some b \<and> world_ok w2)"
    using round_trip_handle[OF assms, of _ _ _ _ "spec_codec ex"] by blast
  have B: "\<forall>p. \<exists>s. UserDataSerialize (spec_codec ex) w (UD_SBodyPath p) = Inr ([LString s], w)
            \<and> UserDataUnserialize (spec_codec ex) w s = Inr ([UD_SBodyPath p], w)"
    using round_trip_path[of ex w] by blast
  have C: "\<forall>l. \<exists>s. UserDataSerialize (spec_codec ex) w (UD_SysLoc l) = Inr ([LString s], w)
            \<and> UserDataUnserialize (spec_codec ex) w s = Inr ([UD_SysLoc l], w)"
    using round_trip_sysloc[of ex w] by blast
  from A B C show ?thesis by (intro conjI)
qed

theorem round_trip_witness:
  "world_ok example_world1
   \<and> wrappers example_world1 0 = Some \<lparr>m_obj = Some 0, m_delCon = Some 0\<rparr>
   \<and> objects example_world1 0 = Some (example_ship\<lparr>onDelete := [0]\<rparr>)
   \<and> IsType (example_ship\<lparr>onDelete := [0]\<rparr>) BODY
   \<and> length (registry example_world1) < 2 ^ 31
   \<and> (\<exists>s w1 h' w2.
          UserDataSerialize (spec_codec example_spec_ex) example_world1 (UD_ObjectWrapper 0)
            = Inr ([LString s], w1)
        \<and> UserDataUnserialize (spec_codec example_spec_ex) w1 s = Inr ([UD_ObjectWrapper h'], w2)
        \<and> h' \<noteq> 0 \<and> entity_of w2 h' = Some 0 \<and> entity_of w2 0 = Some 0)
   \<and> UserDataSerialize (spec_codec example_spec_ex) example_world1 (UD_SBodyPath example_path)
        = Inr ([LString (''SBodyPath'' @ [newline] @ ''0'' @ [newline] @ ''3'' @ [newline]
                 @ ''1'' @ [newline])], example_world1)
   \<and> (\<exists>s. UserDataSerialize (spec_codec example_spec_ex) example_world1 (UD_SBodyPath example_path)
             = Inr ([LString s], example_world1)
        \<and> UserDataUnserialize (spec_codec example_spec_ex) example_world1 s
             = Inr ([UD_SBodyPath example_path], example_world1))
   \<and> UserDataSerialize (spec_codec example_spec_ex) example_world1 (UD_SysLoc example_sysloc)
        = Inr ([LString (''SysLoc'' @ [newline] @ ''3'' @ [newline] @ ''-2'' @ [newline]
                 @ ''7'' @ [newline])], example_world1)
   \<and> (\<exists>s. UserDataSerialize (spec_codec example_spec_ex) example_world1 (UD_SysLoc example_sysloc)
             = Inr ([LString s], example_world1)
        \<and> UserDataUnserialize (spec_codec example_spec_ex) example_world1 s
             = Inr ([UD_SysLoc example_sysloc], example_world1))"
proof -
  note T = round_trip[OF example_world1_ok, of example_spec_ex]
  have a: "wrappers example_world1 0 = Some \<lparr>m_obj = Some 0, m_delCon = Some 0\<rparr>"
    by (simp add: example_world1_def)
  have m: "m_obj \<lparr>m_obj = Some 0, m_delCon = Some 0\<rparr> = Some 0" by simp
  have ob: "objects example_world1 0 = Some (example_ship\<lparr>onDelete := [0]\<rparr>)"
    by (simp add: example_world1_def)
  have ty: "IsType (example_ship\<lparr>onDelete := [0]\<rparr>) BODY"
    by (simp add: IsType_def example_ship_def)
  have r: "length (registry example_world1) < 2 ^ 31"
    by (simp add: example_world1_def example_world_def)
  from conjunct1[OF T, rule_format, of 0 _ 0] a m ob ty r
  have h: "\<exists>s w1 h' w2.
          UserDataSerialize (spec_codec example_spec_ex) example_world1 (UD_ObjectWrapper 0)
            = Inr ([LString s], w1)
        \<and> UserDataUnserialize (spec_codec example_spec_ex) w1 s = Inr ([UD_ObjectWrapper h'], w2)
        \<and> h' \<noteq> 0 \<and> entity_of w2 h' = Some 0 \<and> entity_of w2 0 = Some 0"
    by blast
  note p = conjunct1[OF conjunct2[OF T], rule_format, of example_path]
  note l = conjunct2[OF conjunct2[OF T], rule_format, of example_sysloc]
  have ps: "UserDataSerialize (spec_codec example_spec_ex) example_world1 (UD_SBodyPath example_path)
        = Inr ([LString (''SBodyPath'' @ [newline] @ ''0'' @ [newline] @ ''3'' @ [newline]
                 @ ''1'' @ [newline])], example_world1)"
    using example_payloads(1) by (simp add: UserDataSerialize_def)
  have ls: "UserDataSerialize (spec_codec example_spec_ex) example_world1 (UD_SysLoc example_sysloc)
        = Inr ([LString (''SysLoc'' @ [newline] @ ''3'' @ [newline] @ ''-2'' @ [newline]
                 @ ''7'' @ [newline])], example_world1)"
    using example_payloads(2) by (simp add: UserDataSerialize_def)
  from example_world1_ok a ob ty r h ps p ls l show ?thesis by (intro conjI)
qed

lemma UserDataSerialize_handle_Inr:
  assumes "UserDataSerialize ex w (UD_ObjectWrapper h) = Inr (r, w')"
  shows "\<exists>ow b ob. wrappers w h = Some ow \<and> m_obj ow = Some b \<and> objects w b = Some ob
      \<and> IsType ob BODY \<and> w' = snd (LookupBody_id w b)
      \<and> r = [LString (take 127 (''ObjectWrapper'' @ [newline]
                @ printf_d (fst (LookupBody_id w b)) @ [newline]))]"
  using assms
  by (auto simp: UserDataSerialize_def IsBody_def Is_def deref_def
      split: option.splits sum.splits if_splits prod.splits)

lemma payload_tag:
  assumes a: "UserDataSerialize ex w v = Inr (r, w')"
  shows "\<exists>tag body. r = [LString (tag @ [newline] @ body)] \<and>
          (case v of
             UD_ObjectWrapper h \<Rightarrow> tag = ''ObjectWrapper''
           | UD_SBodyPath p \<Rightarrow> tag = ''SBodyPath'' \<and> body = SBodyPath_Serialize ex p
           | UD_SysLoc l \<Rightarrow> tag = ''SysLoc'' \<and> body = SysLoc_Serialize ex l
           | _ \<Rightarrow> False)"
proof (cases v)
  case (UD_ObjectWrapper h)
  from UserDataSerialize_handle_Inr[OF a[unfolded UD_ObjectWrapper]]
  obtain b where "r = [LString (take 127 (''ObjectWrapper'' @ [newline]
              @ printf_d (fst (LookupBody_id w b)) @ [newline]))]"
    by blast
  then have "r = [LString (''ObjectWrapper'' @ [newline]
              @ take 113 (printf_d (fst (LookupBody_id w b)) @ [newline]))]"
    by simp
  with UD_ObjectWrapper show ?thesis by auto
next
  case (UD_SBodyPath p)
  with a show ?thesis by (auto simp: UserDataSerialize_def)
next
  case (UD_SysLoc l)
  with a show ?thesis by (auto simp: UserDataSerialize_def)
qed (use a in \<open>auto simp: UserDataSerialize_def\<close>)

lemma payload_handle:
  assumes e: "entity_of w h = Some b" and len: "length (registry w) < 2 ^ 31"
    and s: "UserDataSerialize ex w (UD_ObjectWrapper h) = Inr (r, w')"
  shows "r = [LString (''ObjectWrapper'' @ [newline]
               @ decimal (nat (fst (LookupBody_id w b))) @ [newline])]
        \<and> LookupBody_ptr w' (nat (fst (LookupBody_id w b))) = Some b"
proof -
  from UserDataSerialize_handle_Inr[OF s] e
  obtain ow ob where o: "wrappers w h = Some ow" "m_obj ow = Some b" "objects w b = Some ob"
    "IsType ob BODY"
    by (auto simp: entity_of_def)
  from UserDataSerialize_handle[OF o len, of ex] s
  have r: "r = [LString (''ObjectWrapper'' @ [newline]
               @ decimal (nat (fst (LookupBody_id w b))) @ [newline])]"
    and w': "w' = snd (LookupBody_id w b)"
    by simp_all
  have L: "LookupBody_id w b = (fst (LookupBody_id w b), w')" by (simp add: w')
  from LookupBody_id_spec(3,4)[OF L]
  have "LookupBody_ptr w' (nat (fst (LookupBody_id w b))) = Some b"
    by (simp add: LookupBody_ptr_def)
  with r show ?thesis by simp
qed

lemma payload_first:
  assumes "registry w = []" and s: "UserDataSerialize ex w (UD_ObjectWrapper h) = Inr (r, w')"
  shows "r = [LString (''ObjectWrapper'' @ [newline] @ ''0'' @ [newline])]"
proof -
  from UserDataSerialize_handle_Inr[OF s]
  obtain b where "r = [LString (take 127 (''ObjectWrapper'' @ [newline]
                @ printf_d (fst (LookupBody_id w b)) @ [newline]))]"
    by blast
  moreover have "fst (LookupBody_id w b) = 0" using assms(1) by (simp add: LookupBody_id_def)
  ultimately show ?thesis by (simp add: printf_d_def decimal_0)
qed

text \<open>
  Claim C5, as amended. Every payload the encoder returns is one string of the form
  tag, newline, body, where the tag is \<open>ObjectWrapper\<close> for a handle, \<open>SBodyPath\<close> for a
  body path and \<open>SysLoc\<close> for a system location, and the body of the two hierarchical
  kinds is what their field codec wrote. For a handle on entity \<open>b\<close> (fewer than \<open>2^31\<close>
  ids issued) the body is the decimal id of \<open>b\<close> in the registry followed by a newline,
  and the registry resolves that id to \<open>b\<close> afterwards. Encoding the first handle of a
  session (empty registry) yields \<open>ObjectWrapper\<close>, newline, \<open>0\<close>, newline.
\<close>

theorem payload_form:
  "(\<forall>r w'. UserDataSerialize ex w v = Inr (r, w') \<longrightarrow>
       (\<exists>tag body. r = [LString (tag @ [newline] @ body)] \<and>
          (case v of
             UD_ObjectWrapper h \<Rightarrow> tag = ''ObjectWrapper''
           | UD_SBodyPath p \<Rightarrow> tag = ''SBodyPath'' \<and> body = SBodyPath_Serialize ex p
           | UD_SysLoc l \<Rightarrow> tag = ''SysLoc'' \<and> body = SysLoc_Serialize ex l
           | _ \<Rightarrow> False)))
   \<and> (\<forall>h b r w'. entity_of w h = Some b \<and> length (registry w) < 2 ^ 31
          \<and> UserDataSerialize ex w (UD_ObjectWrapper h) = Inr (r, w') \<longrightarrow>
        r = [LString (''ObjectWrapper'' @ [newline]
               @ decimal (nat (fst (LookupBody_id w b))) @ [newline])]
        \<and> LookupBody_ptr w' (nat (fst (LookupBody_id w b))) = Some b)
   \<and> (\<forall>h r w'. registry w = []
          \<and> UserDataSerialize ex w (UD_ObjectWrapper h) = Inr (r, w') \<longrightarrow>
        r = [LString (''ObjectWrapper'' @ [newline] @ ''0'' @ [newline])])"
proof -
  have A: "\<forall>r w'. UserDataSerialize ex w v = Inr (r, w') \<longrightarrow>
       (\<exists>tag body. r = [LString (tag @ [newline] @ body)] \<and>
          (case v of
             UD_ObjectWrapper h \<Rightarrow> tag = ''ObjectWrapper''
           | UD_SBodyPath p \<Rightarrow> tag = ''SBodyPath'' \<and> body = SBodyPath_Serialize ex p
           | UD_SysLoc l \<Rightarrow> tag = ''SysLoc'' \<and> body = SysLoc_Serialize ex l
           | _ \<Rightarrow> False))"
    using payload_tag by blast
  have B: "\<forall>h b r w'. entity_of w h = Some b \<and> length (registry w) < 2 ^ 31
          \<and> UserDataSerialize ex w (UD_ObjectWrapper h) = Inr (r, w') \<longrightarrow>
        r = [LString (''ObjectWrapper'' @ [newline]
               @ decimal (nat (fst (LookupBody_id w b))) @ [newline])]
        \<and> LookupBody_ptr w' (nat (fst (LookupBody_id w b))) = Some b"
    using payload_handle by blast
  have C: "\<forall>h r w'. registry w = []
          \<and> UserDataSerialize ex w (UD_ObjectWrapper h) = Inr (r, w') \<longrightarrow>
        r = [LString (''ObjectWrapper'' @ [newline] @ ''0'' @ [newline])]"
    using payload_first by blast
  from A B C show ?thesis by (intro conjI)
qed

lemma example_first_payload:
  "values_of (UserDataSerialize example_ex example_world1 (UD_ObjectWrapper 0))
     = Inr [LString (''ObjectWrapper'' @ [newline] @ ''0'' @ [newline])]"
proof -
  have a: "wrappers example_world1 0 = Some \<lparr>m_obj = Some 0, m_delCon = Some 0\<rparr>"
    by (simp add: example_world1_def)
  have m: "m_obj \<lparr>m_obj = Some 0, m_delCon = Some 0\<rparr> = Some 0" by simp
  have ob: "objects example_world1 0 = Some (example_ship\<lparr>onDelete := [0]\<rparr>)"
    by (simp add: example_world1_def)
  have ty: "IsType (example_ship\<lparr>onDelete := [0]\<rparr>) BODY"
    by (simp add: IsType_def example_ship_def)
  have r: "registry example_world1 = []"
    by (simp add: example_world1_def example_world_def)
  have i: "fst (LookupBody_id example_world1 0) = 0" by (simp add: LookupBody_id_def r)
  from UserDataSerialize_handle[OF a m ob ty, of example_ex] r i
  show ?thesis by (simp add: values_of_def decimal_0)
qed

theorem payload_form_counterexample:
  "registry example_world1 = []
   \<and> values_of (UserDataSerialize example_ex example_world1 (UD_ObjectWrapper 0))
       = Inr [LString (''ObjectWrapper'' @ [newline] @ ''0'' @ [newline])]
   \<and> values_of (UserDataSerialize example_ex example_world1 (UD_ObjectWrapper 0))
       \<noteq> Inr [LString (''EntityRef'' @ [newline] @ ''0'')]"
  by (simp add: example_first_payload) (simp add: example_world1_def example_world_def)

theorem payload_form_witness:
  "entity_of example_world1 0 = Some 0 \<and> length (registry example_world1) < 2 ^ 31
   \<and> registry example_world1 = []
   \<and> (\<exists>w'. UserDataSerialize example_ex example_world1 (UD_ObjectWrapper 0)
         = Inr ([LString (''ObjectWrapper'' @ [newline] @ ''0'' @ [newline])], w')
        \<and> LookupBody_ptr w' 0 = Some 0)"
proof -
  have e: "entity_of example_world1 0 = Some 0" by (simp add: entity_of_def example_world1_def)
  have r: "registry example_world1 = []"
    by (simp add: example_world1_def example_world_def)
  have i: "fst (LookupBody_id example_world1 0) = 0" by (simp add: LookupBody_id_def r)
  from example_first_payload obtain rr w' where
    s: "UserDataSerialize example_ex example_world1 (UD_ObjectWrapper 0) = Inr (rr, w')"
    by (auto simp: values_of_def split: sum.splits)
  note B = conjunct1[OF conjunct2[OF payload_form[of example_ex example_world1 "UD_ObjectWrapper 0"]]]
  from B[rule_format, of 0 0 rr w'] e r s
  have "rr = [LString (''ObjectWrapper'' @ [newline]
               @ decimal (nat (fst (LookupBody_id example_world1 0))) @ [newline])]
        \<and> LookupBody_ptr w' (nat (fst (LookupBody_id example_world1 0))) = Some 0"
    by simp
  then have "rr = [LString (''ObjectWrapper'' @ [newline] @ ''0'' @ [newline])]
      \<and> LookupBody_ptr w' 0 = Some 0"
    by (simp add: i decimal_0)
  with s e r show ?thesis by simp
qed


section \<open>Decoding an unresolved entity reference\<close>

lemma UserDataUnserialize_entity:
  assumes "take 14 str = ''ObjectWrapper'' @ [newline]"
  shows "UserDataUnserialize ex w str =
     (case atoi (c_str (drop 14 str)) of
        Inl e \<Rightarrow> Inl e
      | Inr n \<Rightarrow>
          (case new_ObjectWrapper w (LookupBody_ptr w (to_size_t n)) of
             Inl e \<Rightarrow> Inl e
           | Inr (h, w') \<Rightarrow> Inr ([UD_ObjectWrapper h], w')))"
  using assms by (simp add: UserDataUnserialize_def Let_def split: sum.splits)

lemma example_atoi_7: "atoi (c_str (''7'' @ [newline])) = Inr 7"
  by (simp add: atoi_def c_str_def isspace_def isdigit_def newline_def Let_def)

lemma example_atoi_0: "atoi (c_str (''0'' @ [newline])) = Inr 0"
  by (simp add: atoi_def c_str_def isspace_def isdigit_def newline_def Let_def)

lemma decode_unresolved:
  assumes "take 14 str = ''ObjectWrapper'' @ [newline]" "atoi (c_str (drop 14 str)) = Inr n"
  shows "LookupBody_ptr w (to_size_t n) = None \<Longrightarrow>
           UserDataUnserialize ex w str = Inl NullDereference"
    and "LookupBody_ptr w (to_size_t n) = Some b \<Longrightarrow> objects w b = None \<Longrightarrow>
           UserDataUnserialize ex w str = Inl UseAfterFree"
  using assms
  by (simp_all add: UserDataUnserialize_entity new_ObjectWrapper_def connect_def)

text \<open>
  Claim C3: the code does not do what the claim says. Decoding tests neither the id nor
  the pointer it resolves to. At the payload with id 7, which was never assigned (the
  registry is empty), the null pointer of the lookup reaches the constructor of the
  handle, whose \<^verbatim>\<open>o->onDelete\<close> dereferences it; at the payload with id 0 after the ship
  with that id has been destroyed, the constructor dereferences the dangling pointer.
  Neither call ends in a reported failure.
\<close>

theorem decode_unresolved_reference:
  "LookupBody_ptr example_world 7 = None
   \<and> UserDataUnserialize example_ex example_world
        (''ObjectWrapper'' @ [newline] @ ''7'' @ [newline]) = Inl NullDereference
   \<and> LookupBody_ptr example_world4 0 = Some 0 \<and> objects example_world4 0 = None
   \<and> UserDataUnserialize example_ex example_world4
        (''ObjectWrapper'' @ [newline] @ ''0'' @ [newline]) = Inl UseAfterFree"
proof -
  have l7: "LookupBody_ptr example_world (to_size_t 7) = None"
    by (simp add: LookupBody_ptr_def example_world_def)
  have l0: "LookupBody_ptr example_world4 (to_size_t 0) = Some 0"
    by (simp add: LookupBody_ptr_def example_world4_def to_size_t_def)
  have o0: "objects example_world4 0 = None"
    by (simp add: example_world4_def example_world2_def)
  have t: "to_size_t 7 = 7" "to_size_t 0 = 0" by (simp_all add: to_size_t_def)
  have a7: "atoi (c_str (drop 14 (''ObjectWrapper'' @ [newline] @ ''7'' @ [newline]))) = Inr 7"
    using example_atoi_7 by simp
  have a0: "atoi (c_str (drop 14 (''ObjectWrapper'' @ [newline] @ ''0'' @ [newline]))) = Inr 0"
    using example_atoi_0 by simp
  have t14: "take 14 (''ObjectWrapper'' @ [newline] @ x) = ''ObjectWrapper'' @ [newline]" for x
    by simp
  note u7 = decode_unresolved(1)[OF t14 a7 l7, of example_ex]
  note u0 = decode_unresolved(2)[OF t14 a0 l0 o0, of example_ex]
  from l7 l0 o0 u7 u0 t show ?thesis by simp
qed

section \<open>Unknown tags and unsupported kinds\<close>

lemma tag_of_prefix:
  assumes "take n str = tag @ [newline]" "newline \<notin> set tag"
  shows "tag_of str = tag"
proof -
  have "str = (tag @ [newline]) @ drop n str"
    using append_take_drop_id[of n str] assms(1) by simp
  then have "tag_of str = takeWhile (\<lambda>c. c \<noteq> newline) (tag @ newline # drop n str)"
    by (simp add: tag_of_def)
  also have "\<dots> = tag" using assms(2) by (auto simp: takeWhile_tail takeWhile_eq_all_conv)
  finally show ?thesis .
qed

lemma tags_registered:
  "take 14 str = ''ObjectWrapper'' @ [newline] \<Longrightarrow> tag_of str = ''ObjectWrapper''"
  "take 10 str = ''SBodyPath'' @ [newline] \<Longrightarrow> tag_of str = ''SBodyPath''"
  "take 7 str = ''SysLoc'' @ [newline] \<Longrightarrow> tag_of str = ''SysLoc''"
  by (rule tag_of_prefix, assumption, simp add: newline_def)+

lemma example_bogus_tag: "tag_of example_bogus = ''Bogus''"
  by (simp add: tag_of_def example_bogus_def newline_def)

lemma unknown_tag_dropped:
  assumes t: "tag_of str \<notin> {''ObjectWrapper'', ''SBodyPath'', ''SysLoc''}"
  shows "UserDataUnserialize ex w str = Inr ([], w)"
proof -
  from t tags_registered(1)[of str] have a: "take 14 str \<noteq> ''ObjectWrapper'' @ [newline]"
    by auto
  from t tags_registered(2)[of str] have b: "take 10 str \<noteq> ''SBodyPath'' @ [newline]"
    by auto
  from t tags_registered(3)[of str] have c: "take 7 str \<noteq> ''SysLoc'' @ [newline]"
    by auto
  show ?thesis using a b c by (simp add: UserDataUnserialize_def)
qed

text \<open>
  Claim C6: the code does not do what the claim says. At the payload \<open>Bogus\<close>, newline,
  \<open>xyz\<close>, whose tag is no registered kind, decoding does not fail: it returns normally
  with no value and the state unchanged, where encoding a value of an unknown kind ends
  in the fatal error \<open>Tried to serialize unknown userdata type.\<close>
\<close>

theorem unknown_tag_returns_nothing:
  "tag_of example_bogus = ''Bogus''
   \<and> UserDataUnserialize example_ex example_world example_bogus = Inr ([], example_world)
   \<and> (\<forall>e. UserDataUnserialize example_ex example_world example_bogus \<noteq> Inl e)
   \<and> UserDataSerialize example_ex example_world (UD_Other ''Bogus'')
       = Inl (FatalError ''Tried to serialize unknown userdata type.'')"
proof -
  have t: "tag_of example_bogus \<notin> {''ObjectWrapper'', ''SBodyPath'', ''SysLoc''}"
    by (simp add: example_bogus_tag)
  from unknown_tag_dropped[OF t, of example_ex example_world] example_bogus_tag
  show ?thesis by (simp add: UserDataSerialize_def)
qed


text \<open>
  Claim C7. For every value that is not a handle, a body path or a system location,
  encoding ends in an error and returns no payload: the fatal error
  \<open>Tried to serialize unknown userdata type.\<close> for userdata of another class, the
  Lua type error of \<^verbatim>\<open>luaL_checktype\<close> for a value that is not userdata.
\<close>

theorem unsupported_kind:
  "(\<forall>h. v \<noteq> UD_ObjectWrapper h) \<and> (\<forall>p. v \<noteq> UD_SBodyPath p) \<and> (\<forall>l. v \<noteq> UD_SysLoc l) \<longrightarrow>
     (\<exists>e. UserDataSerialize ex w v = Inl e)
   \<and> (\<forall>cls. v = UD_Other cls \<longrightarrow>
         UserDataSerialize ex w v = Inl (FatalError ''Tried to serialize unknown userdata type.''))
   \<and> ((\<forall>cls. v \<noteq> UD_Other cls) \<longrightarrow>
         UserDataSerialize ex w v = Inl (LuaError ''userdata expected''))"
  by (cases v) (simp_all add: UserDataSerialize_def)

theorem unsupported_kind_witness:
  "(\<forall>h. UD_Other ''SoundEvent'' \<noteq> (UD_ObjectWrapper h :: string lua_value))
   \<and> (\<forall>p. UD_Other ''SoundEvent'' \<noteq> UD_SBodyPath (p :: string))
   \<and> (\<forall>l. UD_Other ''SoundEvent'' \<noteq> (UD_SysLoc l :: string lua_value))
   \<and> UserDataSerialize example_ex example_world (UD_Other ''SoundEvent'')
       = Inl (FatalError ''Tried to serialize unknown userdata type.'')
   \<and> UserDataSerialize example_ex example_world (LNumber 1)
       = Inl (LuaError ''userdata expected'')"
  using unsupported_kind[of "UD_Other ''SoundEvent''" example_ex example_world]
    unsupported_kind[of "LNumber 1" example_ex example_world]
  by simp

section \<open>Spawning a ship of an unknown type\<close>

lemma c_str_plain: "CHR 0x00 \<notin> set s \<Longrightarrow> c_str s = s"
  by (auto simp: c_str_def takeWhile_eq_all_conv)

text \<open>
  Claim C9, as amended. For every name whose C string (its bytes before the first NUL
  byte) is not a key of the ship-type table, in particular for every name without a NUL
  byte that is not a key, \<open>SpawnShip\<close> returns nil and the string \<open>Unknown ship type\<close>,
  and the state (the bodies of the space included) is unchanged.
\<close>

theorem spawn_unknown_type:
  "(c_str type \<notin> dom (shipTypes w) \<longrightarrow>
      SpawnShip ex w due type = Inr ([LNil, LString ''Unknown ship type''], w))
   \<and> (CHR 0x00 \<notin> set type \<and> type \<notin> dom (shipTypes w) \<longrightarrow>
      SpawnShip ex w due type = Inr ([LNil, LString ''Unknown ship type''], w))"
proof -
  have A: "SpawnShip ex w due type = Inr ([LNil, LString ''Unknown ship type''], w)"
    if "c_str type \<notin> dom (shipTypes w)"
    using that by (auto simp: SpawnShip_def ShipType_Get_def)
  then show ?thesis using c_str_plain[of type] by auto
qed

lemma example_nul_c_str: "c_str example_nul_name = ''Ladybird''"
  by (simp add: c_str_def example_nul_name_def)

lemma example_nul_spawn:
  "values_of (SpawnShip example_ex example_world 200 example_nul_name) = Inr [UD_ObjectWrapper 0]"
  by (simp add: SpawnShip_def ShipType_Get_def example_nul_c_str example_world_def
      spawn_in_cloud_def new_Object_def AddBody_def new_ObjectWrapper_def connect_def
      values_of_def Let_def)

lemma example_nul_bodies:
  "map_sum id bodies (state_of (SpawnShip example_ex example_world 200 example_nul_name))
     = Inr [0, 1, 3]"
  by (simp add: SpawnShip_def ShipType_Get_def example_nul_c_str example_world_def
      spawn_in_cloud_def new_Object_def AddBody_def new_ObjectWrapper_def connect_def
      state_of_def Let_def)

theorem spawn_unknown_type_counterexample:
  "example_nul_name \<notin> dom (shipTypes example_world)
   \<and> values_of (SpawnShip example_ex example_world 200 example_nul_name)
       = Inr [UD_ObjectWrapper 0]
   \<and> values_of (SpawnShip example_ex example_world 200 example_nul_name)
       \<noteq> Inr [LNil, LString ''Unknown ship type'']
   \<and> map_sum id bodies (state_of (SpawnShip example_ex example_world 200 example_nul_name))
       = Inr [0, 1, 3]
   \<and> bodies example_world = [0, 1]"
proof -
  have "example_nul_name \<notin> dom (shipTypes example_world)"
    by (simp add: example_world_def example_nul_name_def)
  moreover have "bodies example_world = [0, 1]" by (simp add: example_world_def)
  ultimately show ?thesis by (simp add: example_nul_spawn example_nul_bodies)
qed

theorem spawn_unknown_type_witness:
  "c_str ''Cobra'' \<notin> dom (shipTypes example_world)
   \<and> CHR 0x00 \<notin> set ''Cobra'' \<and> ''Cobra'' \<notin> dom (shipTypes example_world)
   \<and> SpawnShip example_ex example_world 200 ''Cobra''
       = Inr ([LNil, LString ''Unknown ship type''], example_world)"
proof -
  have a: "c_str ''Cobra'' \<notin> dom (shipTypes example_world)"
    by (simp add: c_str_def example_world_def)
  have b: "CHR 0x00 \<notin> set ''Cobra''" by simp
  have c: "''Cobra'' \<notin> dom (shipTypes example_world)" by (simp add: example_world_def)
  from spawn_unknown_type[of "''Cobra''" example_world example_ex 200] a b c
  show ?thesis by simp
qed

end
